theory Spec2Isabelle
  imports Main "HOL-Library.Sublist"
begin

section \<open>The health check of a backend's servers (healthcheck/healthcheck.go)\<close>

subsection \<open>Data\<close>

text \<open>
  A server is a \<^verbatim>\<open>*url.URL\<close>; the code uses it through \<^verbatim>\<open>String()\<close> and hands it
  to the load balancer, so it is modelled by that string. A \<^verbatim>\<open>time.Duration\<close> is a
  signed count of nanoseconds.
\<close>

type_synonym url = string
type_synonym duration = int

definition Second :: duration where
  "Second = 1000000000"

text \<open>
  What \<^verbatim>\<open>client.Get\<close> returns: an error (\<^verbatim>\<open>err != nil\<close>: DNS, connect, TLS,
  timeout), or a response with its status code.
\<close>

datatype http_result = TransportError | Response int

text \<open>
  The network is outside the program: the outcome of the \<open>k\<close>-th request the program
  issues, to a target, by a client with a timeout. Indexing by \<open>k\<close> lets a server answer
  differently each time it is asked.
\<close>

type_synonym network = "nat \<Rightarrow> string \<Rightarrow> duration \<Rightarrow> http_result"

text \<open>
  The interface \<^verbatim>\<open>LoadBalancer\<close>. Its implementations are outside this package, so
  the methods are parameters: functions on the state \<open>'lb\<close> of the object behind the
  interface value. A mutating method returns its \<^verbatim>\<open>error\<close> (\<open>None\<close> is \<^verbatim>\<open>nil\<close>)
  and the new state. The only option the code passes to \<^verbatim>\<open>UpsertServer\<close> is
  \<^verbatim>\<open>roundrobin.Weight(n)\<close>, modelled by \<open>n\<close>.
\<close>

record 'lb LoadBalancer =
  RemoveServer :: "url \<Rightarrow> 'lb \<Rightarrow> string option \<times> 'lb"
  UpsertServer :: "url \<Rightarrow> nat \<Rightarrow> 'lb \<Rightarrow> string option \<times> 'lb"
  Servers :: "'lb \<Rightarrow> url list"

record 'lb Options =
  URL :: string
  Interval :: duration
  LB :: "'lb LoadBalancer"

text \<open>\<^verbatim>\<open>BackendHealthCheck\<close> embeds \<^verbatim>\<open>Options\<close>: a record extension.\<close>

record 'lb BackendHealthCheck = "'lb Options" +
  disabledURLs :: "url list"
  requestTimeout :: duration

text \<open>
  Everything the code does to the outside is an event of a trace, in the order in which it
  happens.
\<close>

datatype event =
    Get string duration
  | BodyClose string
  | CallServers
  | CallUpsertServer url nat
  | CallRemoveServer url
  | Debugf string
  | Warnf string
  | WgAdd
  | WgDone
  | NewTicker duration
  | TickerStop
  | StoreBackends "string list"
  | CallCancel nat
  | WithCancel nat nat
  | SafeGo string nat

text \<open>
  The state a pass runs in: the state of the object behind \<^verbatim>\<open>currentBackend.LB\<close>, the
  number of requests issued so far, and the trace.
\<close>

record 'lb world =
  adapter :: 'lb
  clock :: nat
  trace :: "event list"

definition emit :: "event \<Rightarrow> 'lb world \<Rightarrow> 'lb world" where
  "emit e w = w\<lparr>trace := trace w @ [e]\<rparr>"

subsection \<open>NewBackendHealthCheck\<close>

text \<open>\<^verbatim>\<open>disabledURLs\<close> is left at its zero value, the nil slice.\<close>

definition NewBackendHealthCheck :: "'lb Options \<Rightarrow> 'lb BackendHealthCheck" where
  "NewBackendHealthCheck options =
     \<lparr>URL = URL options, Interval = Interval options, LB = LB options,
      disabledURLs = [], requestTimeout = 5 * Second\<rparr>"

subsection \<open>checkHealth\<close>

text \<open>
  One \<^verbatim>\<open>client.Get(serverURL.String() + backend.URL)\<close> by a client whose timeout is
  \<^verbatim>\<open>backend.requestTimeout\<close>. The body is closed (deferred) when there is a response.
\<close>

definition checkHealth ::
  "network \<Rightarrow> url \<Rightarrow> 'lb BackendHealthCheck \<Rightarrow> 'lb world \<Rightarrow> bool \<times> 'lb world" where
  "checkHealth net serverURL backend w =
     (let target = serverURL @ URL backend;
          r = net (clock w) target (requestTimeout backend);
          w1 = emit (Get target (requestTimeout backend)) (w\<lparr>clock := Suc (clock w)\<rparr>)
      in case r of
           TransportError \<Rightarrow> (False, w1)
         | Response StatusCode \<Rightarrow> (StatusCode = 200, emit (BodyClose target) w1))"

subsection \<open>checkBackend\<close>

text \<open>
  The first loop of \<^verbatim>\<open>checkBackend\<close>, over \<^verbatim>\<open>currentBackend.disabledURLs\<close>; the second
  argument list is \<^verbatim>\<open>newDisabledURLs\<close>. The error \<^verbatim>\<open>UpsertServer\<close> returns is dropped,
  as the code drops it.
\<close>

fun sweepDisabled ::
  "network \<Rightarrow> 'lb BackendHealthCheck \<Rightarrow> url list \<Rightarrow> url list \<Rightarrow> 'lb world
     \<Rightarrow> url list \<times> 'lb world" where
  "sweepDisabled net currentBackend [] newDisabledURLs w = (newDisabledURLs, w)"
| "sweepDisabled net currentBackend (u # rest) newDisabledURLs w =
     (let (healthy, w1) = checkHealth net u currentBackend w in
      if healthy then
        let w2 = emit (Debugf (''HealthCheck is up ['' @ u @ '']: Upsert in server list'')) w1;
            (err, lb') = UpsertServer (LB currentBackend) u 1 (adapter w2);
            w3 = emit (CallUpsertServer u 1) (w2\<lparr>adapter := lb'\<rparr>)
        in sweepDisabled net currentBackend rest newDisabledURLs w3
      else
        let w2 = emit (Warnf (''HealthCheck is still failing ['' @ u @ '']'')) w1
        in sweepDisabled net currentBackend rest (newDisabledURLs @ [u]) w2)"

text \<open>
  The second loop, over \<^verbatim>\<open>enabledURLs\<close>. It appends to \<^verbatim>\<open>currentBackend.disabledURLs\<close>,
  so the backend is threaded through. The error \<^verbatim>\<open>RemoveServer\<close> returns is dropped.
\<close>

fun sweepEnabled ::
  "network \<Rightarrow> url list \<Rightarrow> 'lb BackendHealthCheck \<Rightarrow> 'lb world
     \<Rightarrow> 'lb BackendHealthCheck \<times> 'lb world" where
  "sweepEnabled net [] currentBackend w = (currentBackend, w)"
| "sweepEnabled net (u # rest) currentBackend w =
     (let (healthy, w1) = checkHealth net u currentBackend w in
      if \<not> healthy then
        let w2 = emit (Warnf (''HealthCheck has failed ['' @ u @ '']: Remove from server list'')) w1;
            (err, lb') = RemoveServer (LB currentBackend) u (adapter w2);
            w3 = emit (CallRemoveServer u) (w2\<lparr>adapter := lb'\<rparr>)
        in sweepEnabled net rest
             (currentBackend\<lparr>disabledURLs := disabledURLs currentBackend @ [u]\<rparr>) w3
      else sweepEnabled net rest currentBackend w1)"

definition checkBackend ::
  "network \<Rightarrow> 'lb BackendHealthCheck \<Rightarrow> 'lb world \<Rightarrow> 'lb BackendHealthCheck \<times> 'lb world" where
  "checkBackend net currentBackend w =
     (let enabledURLs = Servers (LB currentBackend) (adapter w);
          w0 = emit CallServers w;
          (newDisabledURLs, w1) =
             sweepDisabled net currentBackend (disabledURLs currentBackend) [] w0
      in sweepEnabled net enabledURLs
           (currentBackend\<lparr>disabledURLs := newDisabledURLs\<rparr>) w1)"

subsection \<open>The monitor of one backend\<close>

text \<open>
  The function \<^verbatim>\<open>execute\<close> hands to \<^verbatim>\<open>safe.Go\<close> runs in a goroutine of its own. Which
  case its \<^verbatim>\<open>select\<close> takes each time round the loop is decided by the ticker and the
  context, outside the program: it is an input, the list of wake-ups. When the list is
  used up the goroutine is blocked in the \<^verbatim>\<open>select\<close>.
\<close>

datatype wake = Tick | Done

datatype outcome = Waiting | Stopped | Panicked string

fun monitorLoop ::
  "network \<Rightarrow> string \<Rightarrow> wake list \<Rightarrow> 'lb BackendHealthCheck \<Rightarrow> 'lb world
     \<Rightarrow> outcome \<times> 'lb BackendHealthCheck \<times> 'lb world" where
  "monitorLoop net currentBackendID [] currentBackend w = (Waiting, currentBackend, w)"
| "monitorLoop net currentBackendID (Done # wakes) currentBackend w =
     (Stopped, currentBackend,
      emit (Debugf ''Stopping all current Healthcheck goroutines'') w)"
| "monitorLoop net currentBackendID (Tick # wakes) currentBackend w =
     (let w1 = emit (Debugf (''Refreshing healthcheck for currentBackend '' @ currentBackendID @ '' '')) w;
          (b', w2) = checkBackend net currentBackend w1
      in monitorLoop net currentBackendID wakes b' w2)"

text \<open>
  \<^verbatim>\<open>time.NewTicker(d)\<close> panics when \<^verbatim>\<open>d <= 0\<close> (package time: "non-positive interval
  for NewTicker"). The panic runs the deferred \<^verbatim>\<open>hc.wg.Done()\<close>; \<^verbatim>\<open>ticker.Stop()\<close> is
  deferred only after the ticker exists. On \<^verbatim>\<open>return\<close> both deferred calls run, the last
  deferred first.
\<close>

definition monitor ::
  "network \<Rightarrow> string \<Rightarrow> wake list \<Rightarrow> 'lb BackendHealthCheck \<Rightarrow> 'lb world
     \<Rightarrow> outcome \<times> 'lb BackendHealthCheck \<times> 'lb world" where
  "monitor net currentBackendID wakes currentBackend w =
     (let w1 = emit WgAdd w;
          w2 = emit (Debugf (''Initial healthcheck for currentBackend '' @ currentBackendID @ '' '')) w1;
          (b1, w3) = checkBackend net currentBackend w2
      in if Interval b1 \<le> 0 then
           (Panicked ''non-positive interval for NewTicker'', b1, emit WgDone w3)
         else
           let w4 = emit (NewTicker (Interval b1)) w3;
               (out, b2, w5) = monitorLoop net currentBackendID wakes b1 w4
           in if out = Stopped then (Stopped, b2, emit WgDone (emit TickerStop w5))
              else (out, b2, w5))"

subsection \<open>The registry\<close>

text \<open>
  \<^verbatim>\<open>HealthCheck.Backends\<close> is a Go map; it is modelled by its entries in the order in which
  \<^verbatim>\<open>range\<close> yields them (any order: Go does not fix it). \<^verbatim>\<open>cancel\<close> is the stored
  \<^verbatim>\<open>context.CancelFunc\<close>, \<open>None\<close> for nil; a context is named by a number.
\<close>

record 'lb HealthCheck =
  Backends :: "(string \<times> 'lb BackendHealthCheck) list"
  cancel :: "nat option"

text \<open>
  What the registry acts on: the next fresh context, the contexts cancelled so far, the
  goroutines started so far (backend id, backend, context), and the trace.
\<close>

record 'lb runtime =
  nextCtx :: nat
  cancelled :: "nat list"
  goroutines :: "(string \<times> 'lb BackendHealthCheck \<times> nat) list"
  history :: "event list"

definition newHealthCheck :: "'lb HealthCheck" where
  "newHealthCheck = \<lparr>Backends = [], cancel = None\<rparr>"

text \<open>
  The loop of \<^verbatim>\<open>execute\<close>: one \<^verbatim>\<open>safe.Go\<close> per entry of the map. Modelled from
  the spec: package \<^verbatim>\<open>safe\<close> is not among the sources; \<^verbatim>\<open>safe.Go\<close> starts the function
  it is given as a task of its own (section 4.3: one Backend Monitor task is started per
  entry). The task started for an entry runs \<open>monitor\<close> on the entry's id and backend.
\<close>

fun executeLoop ::
  "nat \<Rightarrow> (string \<times> 'lb BackendHealthCheck) list \<Rightarrow> 'lb runtime \<Rightarrow> 'lb runtime" where
  "executeLoop ctx [] rt = rt"
| "executeLoop ctx ((backendID, backend) # rest) rt =
     executeLoop ctx rest
       (rt\<lparr>goroutines := goroutines rt @ [(backendID, backend, ctx)],
           history := history rt @ [SafeGo backendID ctx]\<rparr>)"

definition execute :: "nat \<Rightarrow> 'lb HealthCheck \<Rightarrow> 'lb runtime \<Rightarrow> 'lb runtime" where
  "execute ctx hc rt = executeLoop ctx (Backends hc) rt"

definition SetBackendsConfiguration ::
  "nat \<Rightarrow> (string \<times> 'lb BackendHealthCheck) list \<Rightarrow> 'lb HealthCheck \<Rightarrow> 'lb runtime
     \<Rightarrow> 'lb HealthCheck \<times> 'lb runtime" where
  "SetBackendsConfiguration parentCtx backends hc rt =
     (let hc1 = hc\<lparr>Backends := backends\<rparr>;
          rt1 = rt\<lparr>history := history rt @ [StoreBackends (map fst backends)]\<rparr>;
          rt2 = (case cancel hc1 of
                   None \<Rightarrow> rt1
                 | Some c \<Rightarrow> rt1\<lparr>cancelled := c # cancelled rt1,
                                 history := history rt1 @ [CallCancel c]\<rparr>);
          ctx = nextCtx rt2;
          rt3 = rt2\<lparr>nextCtx := Suc ctx, history := history rt2 @ [WithCancel parentCtx ctx]\<rparr>;
          hc2 = hc1\<lparr>cancel := Some ctx\<rparr>
      in (hc2, execute ctx hc2 rt3))"

subsection \<open>Load balancers to run the code on\<close>

text \<open>
  Modelled from the spec: the Load-Balancer Adapter of section 4.4, whose implementations
  are outside this package. The live list is a list of URLs; \<^verbatim>\<open>upsertServer\<close> adds a
  server that is absent and neither fails nor duplicates when it is present;
  \<^verbatim>\<open>removeServer\<close> removes the server and does not fail when it is absent.
\<close>

definition listLB :: "url list LoadBalancer" where
  "listLB =
     \<lparr>RemoveServer = (\<lambda>u s. (None, removeAll u s)),
      UpsertServer = (\<lambda>u weight s. (None, if u \<in> set s then s else s @ [u])),
      Servers = (\<lambda>s. s)\<rparr>"

text \<open>
  A load balancer whose mutating calls fail: they return an error and leave the live list
  as it is (the AdapterMutationFailure of section 7 of the spec).
\<close>

definition failingLB :: "url list LoadBalancer" where
  "failingLB =
     \<lparr>RemoveServer = (\<lambda>u s. (Some ''remove failed'', s)),
      UpsertServer = (\<lambda>u weight s. (Some ''upsert failed'', s)),
      Servers = (\<lambda>s. s)\<rparr>"

text \<open>The same load balancer with every returned error replaced by nil.\<close>

definition withoutErrors :: "'lb LoadBalancer \<Rightarrow> 'lb LoadBalancer" where
  "withoutErrors L =
     \<lparr>RemoveServer = (\<lambda>u s. (None, snd (RemoveServer L u s))),
      UpsertServer = (\<lambda>u weight s. (None, snd (UpsertServer L u weight s))),
      Servers = Servers L\<rparr>"

text \<open>
  The contract of section 4.4 as far as the live list goes: a mutating call takes effect,
  and an upsert does not duplicate.
\<close>

definition takesEffect :: "'lb LoadBalancer \<Rightarrow> bool" where
  "takesEffect L \<longleftrightarrow>
     (\<forall>u weight s. set (Servers L (snd (UpsertServer L u weight s))) = insert u (set (Servers L s)))
   \<and> (\<forall>u s. set (Servers L (snd (RemoveServer L u s))) = set (Servers L s) - {u})
   \<and> (\<forall>u weight s. distinct (Servers L s) \<longrightarrow> distinct (Servers L (snd (UpsertServer L u weight s))))
   \<and> (\<forall>u s. distinct (Servers L s) \<longrightarrow> distinct (Servers L (snd (RemoveServer L u s))))"

subsection \<open>Reading a trace\<close>

fun isRequest :: "event \<Rightarrow> bool" where
  "isRequest (Get target timeout) = True"
| "isRequest e = False"

fun isAdapterCall :: "event \<Rightarrow> bool" where
  "isAdapterCall CallServers = True"
| "isAdapterCall (CallUpsertServer u weight) = True"
| "isAdapterCall (CallRemoveServer u) = True"
| "isAdapterCall e = False"

fun isWarning :: "event \<Rightarrow> bool" where
  "isWarning (Warnf msg) = True"
| "isWarning e = False"

text \<open>
  The verdict of the probe of server \<open>u\<close> of this backend when it is the \<open>k\<close>-th request
  issued: the request completes and the status code is 200.
\<close>

definition healthyAt :: "network \<Rightarrow> 'lb BackendHealthCheck \<Rightarrow> nat \<times> url \<Rightarrow> bool" where
  "healthyAt net b = (\<lambda>(k, u). net k (u @ URL b) (requestTimeout b) = Response 200)"

text \<open>The events of the goroutine itself, as opposed to those of a pass.\<close>

fun isLifecycle :: "event \<Rightarrow> bool" where
  "isLifecycle WgAdd = True"
| "isLifecycle WgDone = True"
| "isLifecycle (NewTicker d) = True"
| "isLifecycle TickerStop = True"
| "isLifecycle e = False"

text \<open>The events that world \<open>w'\<close> has after those of \<open>w\<close>.\<close>

definition since :: "'lb world \<Rightarrow> 'lb world \<Rightarrow> event list" where
  "since w w' = drop (length (trace w)) (trace w')"

text \<open>
  A pass in two steps: the world after the first loop of \<^verbatim>\<open>checkBackend\<close> (line 123 of
  the source), and the events of each step.
\<close>

definition afterStep1 :: "network \<Rightarrow> 'lb BackendHealthCheck \<Rightarrow> 'lb world \<Rightarrow> 'lb world" where
  "afterStep1 net b w = snd (sweepDisabled net b (disabledURLs b) [] (emit CallServers w))"

definition step1Events :: "network \<Rightarrow> 'lb BackendHealthCheck \<Rightarrow> 'lb world \<Rightarrow> event list" where
  "step1Events net b w = since (emit CallServers w) (afterStep1 net b w)"

definition step2Events :: "network \<Rightarrow> 'lb BackendHealthCheck \<Rightarrow> 'lb world \<Rightarrow> event list" where
  "step2Events net b w = since (afterStep1 net b w) (snd (checkBackend net b w))"

subsection \<open>A backend to run the code on\<close>

text \<open>
  The scenario of section 8 of the spec: backend "api" with path "/health" and interval
  1s; server s1 answers 200, server s2 times out on the first two requests issued and
  answers 200 from then on.
\<close>

definition apiNet :: network where
  "apiNet k target timeout =
     (if target = ''s1/health'' then Response 200
      else if k < 2 then TransportError else Response 200)"

definition apiBackend :: "url list BackendHealthCheck" where
  "apiBackend = NewBackendHealthCheck \<lparr>URL = ''/health'', Interval = Second, LB = listLB\<rparr>"

definition apiWorld :: "url list world" where
  "apiWorld = \<lparr>adapter = [''s1'', ''s2''], clock = 0, trace = []\<rparr>"

text \<open>
  A network on which s2 never answers and s3 answers 503; every other server answers 200.
\<close>

definition downNet :: network where
  "downNet k target timeout =
     (if target = ''s2/health'' then TransportError
      else if target = ''s3/health'' then Response 503
      else Response 200)"

text \<open>
  One tick of a running monitor as the spec describes it (section 4.2, Steady: on every
  interval tick, perform a reconciliation pass): the log line of the tick, then a pass.
\<close>

definition tickPass ::
  "network \<Rightarrow> string \<Rightarrow> 'lb BackendHealthCheck \<times> 'lb world \<Rightarrow> 'lb BackendHealthCheck \<times> 'lb world" where
  "tickPass net ident = (\<lambda>(b, w).
     checkBackend net b
       (emit (Debugf (''Refreshing healthcheck for currentBackend '' @ ident @ '' '')) w))"

section \<open>Properties\<close>

subsection \<open>What a probe and a sweep do\<close>

lemma emit_simps [simp]:
  "trace (emit e w) = trace w @ [e]"
  "clock (emit e w) = clock w"
  "adapter (emit e w) = adapter w"
  by (simp_all add: emit_def)

lemma checkHealth_fst:
  "fst (checkHealth net u b w) = healthyAt net b (clock w, u)"
  by (simp add: checkHealth_def healthyAt_def Let_def split: http_result.splits)

lemma checkHealth_clock:
  "clock (snd (checkHealth net u b w)) = Suc (clock w)"
  by (simp add: checkHealth_def Let_def split: http_result.splits)

lemma checkHealth_adapter:
  "adapter (snd (checkHealth net u b w)) = adapter w"
  by (simp add: checkHealth_def Let_def split: http_result.splits)

lemma checkHealth_requests:
  "filter isRequest (trace (snd (checkHealth net u b w))) =
     filter isRequest (trace w) @ [Get (u @ URL b) (requestTimeout b)]"
  by (simp add: checkHealth_def Let_def split: http_result.splits)

lemma checkHealth_calls:
  "filter isAdapterCall (trace (snd (checkHealth net u b w))) = filter isAdapterCall (trace w)"
  by (simp add: checkHealth_def Let_def split: http_result.splits)

lemma checkHealth_warnings:
  "filter isWarning (trace (snd (checkHealth net u b w))) = filter isWarning (trace w)"
  by (simp add: checkHealth_def Let_def split: http_result.splits)

lemmas checkHealth_obs = checkHealth_fst checkHealth_clock checkHealth_adapter
  checkHealth_requests checkHealth_calls checkHealth_warnings

lemma sweepDisabled_fst:
  "fst (sweepDisabled net b us nd w) =
     nd @ map snd (filter (\<lambda>p. \<not> healthyAt net b p) (enumerate (clock w) us))"
  by (induction us arbitrary: nd w)
     (simp_all add: Let_def case_prod_beta checkHealth_obs)

lemma sweepDisabled_clock:
  "clock (snd (sweepDisabled net b us nd w)) = clock w + length us"
  by (induction us arbitrary: nd w)
     (simp_all add: Let_def case_prod_beta checkHealth_obs)

lemma sweepDisabled_requests:
  "filter isRequest (trace (snd (sweepDisabled net b us nd w))) =
     filter isRequest (trace w) @ map (\<lambda>u. Get (u @ URL b) (requestTimeout b)) us"
  by (induction us arbitrary: nd w)
     (simp_all add: Let_def case_prod_beta checkHealth_obs)

lemma sweepDisabled_calls:
  "filter isAdapterCall (trace (snd (sweepDisabled net b us nd w))) =
     filter isAdapterCall (trace w) @
     map (\<lambda>p. CallUpsertServer (snd p) 1) (filter (healthyAt net b) (enumerate (clock w) us))"
  by (induction us arbitrary: nd w)
     (simp_all add: Let_def case_prod_beta checkHealth_obs)

lemma healthyAt_disabledURLs [simp]:
  "healthyAt net (b\<lparr>disabledURLs := ds\<rparr>) = healthyAt net b"
  by (simp add: healthyAt_def)

lemma sweepEnabled_disabled:
  "disabledURLs (fst (sweepEnabled net us b w)) =
     disabledURLs b @ map snd (filter (\<lambda>p. \<not> healthyAt net b p) (enumerate (clock w) us))"
  by (induction us arbitrary: b w)
     (simp_all add: Let_def case_prod_beta checkHealth_obs)

lemma sweepEnabled_fields:
  "URL (fst (sweepEnabled net us b w)) = URL b"
  "Interval (fst (sweepEnabled net us b w)) = Interval b"
  "LB (fst (sweepEnabled net us b w)) = LB b"
  "requestTimeout (fst (sweepEnabled net us b w)) = requestTimeout b"
  by (induction us arbitrary: b w; simp add: Let_def case_prod_beta)+

lemma sweepEnabled_clock:
  "clock (snd (sweepEnabled net us b w)) = clock w + length us"
  by (induction us arbitrary: b w)
     (simp_all add: Let_def case_prod_beta checkHealth_obs)

lemma sweepEnabled_requests:
  "filter isRequest (trace (snd (sweepEnabled net us b w))) =
     filter isRequest (trace w) @ map (\<lambda>u. Get (u @ URL b) (requestTimeout b)) us"
  by (induction us arbitrary: b w)
     (simp_all add: Let_def case_prod_beta checkHealth_obs)

lemma sweepEnabled_calls:
  "filter isAdapterCall (trace (snd (sweepEnabled net us b w))) =
     filter isAdapterCall (trace w) @
     map (\<lambda>p. CallRemoveServer (snd p))
       (filter (\<lambda>p. \<not> healthyAt net b p) (enumerate (clock w) us))"
  by (induction us arbitrary: b w)
     (simp_all add: Let_def case_prod_beta checkHealth_obs)

lemma checkBackend_split:
  "checkBackend net b w =
     sweepEnabled net (Servers (LB b) (adapter w))
       (b\<lparr>disabledURLs := fst (sweepDisabled net b (disabledURLs b) [] (emit CallServers w))\<rparr>)
       (snd (sweepDisabled net b (disabledURLs b) [] (emit CallServers w)))"
  by (simp add: checkBackend_def Let_def case_prod_beta)

lemma checkBackend_fields:
  "URL (fst (checkBackend net b w)) = URL b"
  "Interval (fst (checkBackend net b w)) = Interval b"
  "LB (fst (checkBackend net b w)) = LB b"
  "requestTimeout (fst (checkBackend net b w)) = requestTimeout b"
  by (simp_all add: checkBackend_split sweepEnabled_fields)

lemma checkBackend_disabled:
  "disabledURLs (fst (checkBackend net b w)) =
     map snd (filter (\<lambda>p. \<not> healthyAt net b p) (enumerate (clock w) (disabledURLs b))) @
     map snd (filter (\<lambda>p. \<not> healthyAt net b p)
       (enumerate (clock w + length (disabledURLs b)) (Servers (LB b) (adapter w))))"
  by (simp add: checkBackend_split sweepEnabled_disabled sweepDisabled_fst sweepDisabled_clock)

lemma checkBackend_clock:
  "clock (snd (checkBackend net b w)) =
     clock w + length (disabledURLs b) + length (Servers (LB b) (adapter w))"
  by (simp add: checkBackend_split sweepEnabled_clock sweepDisabled_clock)

lemma checkBackend_requests:
  "filter isRequest (trace (snd (checkBackend net b w))) =
     filter isRequest (trace w) @
     map (\<lambda>u. Get (u @ URL b) (requestTimeout b)) (disabledURLs b @ Servers (LB b) (adapter w))"
  by (simp add: checkBackend_split sweepEnabled_requests sweepDisabled_requests)

lemma checkBackend_calls:
  "filter isAdapterCall (trace (snd (checkBackend net b w))) =
     filter isAdapterCall (trace w) @ CallServers #
     map (\<lambda>p. CallUpsertServer (snd p) 1)
       (filter (healthyAt net b) (enumerate (clock w) (disabledURLs b))) @
     map (\<lambda>p. CallRemoveServer (snd p))
       (filter (\<lambda>p. \<not> healthyAt net b p)
         (enumerate (clock w + length (disabledURLs b)) (Servers (LB b) (adapter w))))"
  by (simp add: checkBackend_split sweepEnabled_calls sweepDisabled_calls sweepDisabled_clock)

lemma count_list_kept:
  "count_list (map snd (filter P (enumerate k us))) u \<le> count_list us u"
  by (induction us arbitrary: k) (auto intro: le_SucI)

lemma distinct_kept:
  "distinct us \<Longrightarrow> distinct (map snd (filter P (enumerate k us)))"
  by (metis distinct_map_filter map_snd_enumerate)

subsection \<open>The live list under a load balancer whose calls take effect\<close>

lemma takesEffectD:
  assumes "takesEffect L"
  shows "set (Servers L (snd (UpsertServer L u n s))) = insert u (set (Servers L s))"
    and "set (Servers L (snd (RemoveServer L u s))) = set (Servers L s) - {u}"
    and "distinct (Servers L s) \<Longrightarrow> distinct (Servers L (snd (UpsertServer L u n s)))"
    and "distinct (Servers L s) \<Longrightarrow> distinct (Servers L (snd (RemoveServer L u s)))"
  using assms unfolding takesEffect_def by blast+

lemma listLB_takesEffect: "takesEffect listLB"
  by (auto simp: takesEffect_def listLB_def distinct_removeAll)

lemma sweepDisabled_live:
  assumes "takesEffect (LB b)"
  shows "set (Servers (LB b) (adapter (snd (sweepDisabled net b us nd w)))) =
           set (Servers (LB b) (adapter w)) \<union>
           snd ` set (filter (healthyAt net b) (enumerate (clock w) us))"
  using assms
  by (induction us arbitrary: nd w)
     (simp_all add: Let_def case_prod_beta checkHealth_obs takesEffectD)

lemma sweepDisabled_live_distinct:
  assumes "takesEffect (LB b)" "distinct (Servers (LB b) (adapter w))"
  shows "distinct (Servers (LB b) (adapter (snd (sweepDisabled net b us nd w))))"
  using assms
  by (induction us arbitrary: nd w)
     (simp_all add: Let_def case_prod_beta checkHealth_obs takesEffectD)

lemma sweepEnabled_live_gen:
  assumes "takesEffect L" "LB b = L"
  shows "set (Servers L (adapter (snd (sweepEnabled net us b w)))) =
           set (Servers L (adapter w)) -
           snd ` set (filter (\<lambda>p. \<not> healthyAt net b p) (enumerate (clock w) us))"
  using assms
  by (induction us arbitrary: b w)
     (auto simp add: Let_def case_prod_beta checkHealth_obs takesEffectD)

lemma sweepEnabled_live_distinct_gen:
  assumes "takesEffect L" "LB b = L" "distinct (Servers L (adapter w))"
  shows "distinct (Servers L (adapter (snd (sweepEnabled net us b w))))"
  using assms
  by (induction us arbitrary: b w)
     (simp_all add: Let_def case_prod_beta checkHealth_obs takesEffectD)

lemma snd_image_enumerate: "snd ` set (enumerate k us) = set us"
  by (metis map_snd_enumerate set_map)

lemma verdicts_partition:
  "snd ` set (filter P (enumerate k us)) \<union> snd ` set (filter (\<lambda>p. \<not> P p) (enumerate k us)) = set us"
proof -
  have "set (filter P (enumerate k us)) \<union> set (filter (\<lambda>p. \<not> P p) (enumerate k us)) =
        set (enumerate k us)"
    by auto
  then show ?thesis
    by (metis image_Un snd_image_enumerate)
qed

lemma verdicts_disjoint:
  assumes "distinct us"
  shows "snd ` set (filter P (enumerate k us)) \<inter> snd ` set (filter (\<lambda>p. \<not> P p) (enumerate k us)) = {}"
proof -
  have inj: "inj_on snd (set (enumerate k us))"
    using assms distinct_map[of snd "enumerate k us"] by simp
  show ?thesis
  proof (rule ccontr)
    assume "\<not> ?thesis"
    then obtain p q where p: "p \<in> set (enumerate k us)" "P p"
      and q: "q \<in> set (enumerate k us)" "\<not> P q" and eq: "snd p = snd q"
      by auto
    from inj eq p(1) q(1) have "p = q" by (rule inj_onD)
    with p(2) q(2) show False by simp
  qed
qed

lemma failed_subset:
  "snd ` set (filter P (enumerate k us)) \<subseteq> set us"
  using verdicts_partition[of P k us] by blast

lemma checkBackend_live:
  assumes "takesEffect (LB b)"
  shows "set (Servers (LB b) (adapter (snd (checkBackend net b w)))) =
           (set (Servers (LB b) (adapter w)) \<union>
            snd ` set (filter (healthyAt net b) (enumerate (clock w) (disabledURLs b)))) -
           snd ` set (filter (\<lambda>p. \<not> healthyAt net b p)
             (enumerate (clock w + length (disabledURLs b)) (Servers (LB b) (adapter w))))"
  using assms
  by (simp add: checkBackend_split sweepEnabled_live_gen sweepDisabled_live sweepDisabled_clock)

lemma checkBackend_live_distinct:
  assumes "takesEffect (LB b)" "distinct (Servers (LB b) (adapter w))"
  shows "distinct (Servers (LB b) (adapter (snd (checkBackend net b w))))"
  using assms
  by (simp add: checkBackend_split sweepEnabled_live_distinct_gen sweepDisabled_live_distinct)

subsection \<open>The events of a pass\<close>

lemma prefix_since:
  "prefix (trace w) (trace w') \<Longrightarrow> trace w' = trace w @ since w w'"
  by (auto simp: prefix_def since_def)

lemma filter_since:
  assumes "prefix (trace w) (trace w')"
    and "filter P (trace w') = filter P (trace w) @ xs"
  shows "filter P (since w w') = xs"
  using assms(2) prefix_since[OF assms(1)]
  by (metis filter_append same_append_eq)

lemma checkHealth_prefix:
  "prefix (trace w) (trace (snd (checkHealth net u b w)))"
  by (simp add: checkHealth_def Let_def split: http_result.splits)

lemma checkHealth_lifecycle:
  "filter isLifecycle (trace (snd (checkHealth net u b w))) = filter isLifecycle (trace w)"
  by (simp add: checkHealth_def Let_def split: http_result.splits)

lemma sweepDisabled_prefix:
  "prefix (trace w) (trace (snd (sweepDisabled net b us nd w)))"
proof (induction us arbitrary: nd w)
  case Nil
  show ?case by simp
next
  case (Cons u us)
  have step: "prefix (trace w) (trace (snd (checkHealth net u b w)))"
    by (rule checkHealth_prefix)
  show ?case
  proof (cases "fst (checkHealth net u b w)")
    case True
    then show ?thesis
      using prefix_order.trans[OF _ Cons.IH] step
      by (simp add: Let_def case_prod_beta)
  next
    case False
    then show ?thesis
      using prefix_order.trans[OF _ Cons.IH] step
      by (simp add: Let_def case_prod_beta)
  qed
qed

lemma sweepEnabled_prefix:
  "prefix (trace w) (trace (snd (sweepEnabled net us b w)))"
proof (induction us arbitrary: b w)
  case Nil
  show ?case by simp
next
  case (Cons u us)
  have step: "prefix (trace w) (trace (snd (checkHealth net u b w)))"
    by (rule checkHealth_prefix)
  show ?case
  proof (cases "fst (checkHealth net u b w)")
    case True
    then show ?thesis
      using prefix_order.trans[OF step Cons.IH]
      by (simp add: Let_def case_prod_beta)
  next
    case False
    then show ?thesis
      using prefix_order.trans[OF _ Cons.IH] step
      by (simp add: Let_def case_prod_beta)
  qed
qed

lemma sweepDisabled_lifecycle:
  "filter isLifecycle (trace (snd (sweepDisabled net b us nd w))) = filter isLifecycle (trace w)"
  by (induction us arbitrary: nd w)
     (simp_all add: Let_def case_prod_beta checkHealth_lifecycle)

lemma sweepEnabled_lifecycle:
  "filter isLifecycle (trace (snd (sweepEnabled net us b w))) = filter isLifecycle (trace w)"
  by (induction us arbitrary: b w)
     (simp_all add: Let_def case_prod_beta checkHealth_lifecycle)

lemma afterStep1_prefix: "prefix (trace (emit CallServers w)) (trace (afterStep1 net b w))"
  unfolding afterStep1_def by (rule sweepDisabled_prefix)

lemma checkBackend_afterStep1:
  "checkBackend net b w =
     sweepEnabled net (Servers (LB b) (adapter w))
       (b\<lparr>disabledURLs := fst (sweepDisabled net b (disabledURLs b) [] (emit CallServers w))\<rparr>)
       (afterStep1 net b w)"
  by (simp add: checkBackend_split afterStep1_def)

lemma step2_prefix: "prefix (trace (afterStep1 net b w)) (trace (snd (checkBackend net b w)))"
  unfolding checkBackend_afterStep1 by (rule sweepEnabled_prefix)

lemma checkBackend_prefix: "prefix (trace w) (trace (snd (checkBackend net b w)))"
proof -
  have "prefix (trace w) (trace (emit CallServers w))" by simp
  then show ?thesis
    using afterStep1_prefix step2_prefix prefix_order.trans by blast
qed

lemma checkBackend_lifecycle:
  "filter isLifecycle (trace (snd (checkBackend net b w))) = filter isLifecycle (trace w)"
  by (simp add: checkBackend_split sweepEnabled_lifecycle sweepDisabled_lifecycle)

lemma checkBackend_trace:
  "trace (snd (checkBackend net b w)) =
     trace w @ CallServers # step1Events net b w @ step2Events net b w"
proof -
  have "trace (afterStep1 net b w) = trace (emit CallServers w) @ step1Events net b w"
    unfolding step1Events_def by (rule prefix_since[OF afterStep1_prefix])
  moreover have "trace (snd (checkBackend net b w)) =
      trace (afterStep1 net b w) @ step2Events net b w"
    unfolding step2Events_def by (rule prefix_since[OF step2_prefix])
  ultimately show ?thesis by simp
qed

lemma step1_requests:
  "filter isRequest (step1Events net b w) =
     map (\<lambda>u. Get (u @ URL b) (requestTimeout b)) (disabledURLs b)"
  unfolding step1Events_def
  by (rule filter_since[OF afterStep1_prefix])
     (simp add: afterStep1_def sweepDisabled_requests)

lemma step1_calls:
  "filter isAdapterCall (step1Events net b w) =
     map (\<lambda>p. CallUpsertServer (snd p) 1)
       (filter (healthyAt net b) (enumerate (clock w) (disabledURLs b)))"
  unfolding step1Events_def
  by (rule filter_since[OF afterStep1_prefix])
     (simp add: afterStep1_def sweepDisabled_calls)

lemma step2_requests:
  "filter isRequest (step2Events net b w) =
     map (\<lambda>u. Get (u @ URL b) (requestTimeout b)) (Servers (LB b) (adapter w))"
  unfolding step2Events_def
  by (rule filter_since[OF step2_prefix])
     (simp add: checkBackend_afterStep1 sweepEnabled_requests)

lemma step2_calls:
  "filter isAdapterCall (step2Events net b w) =
     map (\<lambda>p. CallRemoveServer (snd p))
       (filter (\<lambda>p. \<not> healthyAt net b p)
          (enumerate (clock w + length (disabledURLs b)) (Servers (LB b) (adapter w))))"
  unfolding step2Events_def
  by (rule filter_since[OF step2_prefix])
     (simp add: checkBackend_afterStep1 sweepEnabled_calls afterStep1_def sweepDisabled_clock)

lemma probed_in_step2:
  "Get (u @ URL b) (requestTimeout b) \<in> set (step2Events net b w) \<longleftrightarrow>
     u \<in> set (Servers (LB b) (adapter w))"
proof -
  have "Get (u @ URL b) (requestTimeout b) \<in> set (step2Events net b w) \<longleftrightarrow>
        Get (u @ URL b) (requestTimeout b) \<in> set (filter isRequest (step2Events net b w))"
    by simp
  also have "\<dots> \<longleftrightarrow> u \<in> set (Servers (LB b) (adapter w))"
    unfolding step2_requests by auto
  finally show ?thesis .
qed

lemma step1_no_Servers: "CallServers \<notin> set (step1Events net b w)"
proof
  assume "CallServers \<in> set (step1Events net b w)"
  then have "CallServers \<in> set (filter isAdapterCall (step1Events net b w))"
    by simp
  then show False
    unfolding step1_calls by auto
qed

lemma step2_no_Servers: "CallServers \<notin> set (step2Events net b w)"
proof
  assume "CallServers \<in> set (step2Events net b w)"
  then have "CallServers \<in> set (filter isAdapterCall (step2Events net b w))"
    by simp
  then show False
    unfolding step2_calls by auto
qed

lemma checkBackend_count_Servers:
  "count_list (trace (snd (checkBackend net b w))) CallServers =
     Suc (count_list (trace w) CallServers)"
  by (simp add: checkBackend_trace step1_no_Servers step2_no_Servers)

subsection \<open>The loop of a monitor\<close>

lemma monitorLoop_outcome:
  "fst (monitorLoop net ident wakes b w) = (if Done \<in> set wakes then Stopped else Waiting)"
  by (induction net ident wakes b w rule: monitorLoop.induct)
     (simp_all add: Let_def case_prod_beta)

lemma monitorLoop_passes:
  "count_list (trace (snd (snd (monitorLoop net ident wakes b w)))) CallServers =
     count_list (trace w) CallServers + length (takeWhile (\<lambda>x. x = Tick) wakes)"
  by (induction net ident wakes b w rule: monitorLoop.induct)
     (simp_all add: Let_def case_prod_beta checkBackend_count_Servers)

lemma monitorLoop_lifecycle:
  "filter isLifecycle (trace (snd (snd (monitorLoop net ident wakes b w)))) =
     filter isLifecycle (trace w)"
  by (induction net ident wakes b w rule: monitorLoop.induct)
     (simp_all add: Let_def case_prod_beta checkBackend_lifecycle)

lemma monitorLoop_prefix:
  "prefix (trace w) (trace (snd (snd (monitorLoop net ident wakes b w))))"
proof (induction net ident wakes b w rule: monitorLoop.induct)
  case (1 net ident b w)
  show ?case by simp
next
  case (2 net ident wakes b w)
  show ?case by simp
next
  case (3 net ident wakes b w)
  let ?w1 = "emit (Debugf (''Refreshing healthcheck for currentBackend '' @ ident @ '' '')) w"
  have "prefix (trace w) (trace ?w1)" by simp
  moreover have "prefix (trace ?w1) (trace (snd (checkBackend net b ?w1)))"
    by (rule checkBackend_prefix)
  moreover have "prefix (trace (snd (checkBackend net b ?w1)))
      (trace (snd (snd (monitorLoop net ident wakes (fst (checkBackend net b ?w1))
         (snd (checkBackend net b ?w1))))))"
    by (rule "3.IH"[OF refl refl prod.collapse])
  ultimately have "prefix (trace w)
      (trace (snd (snd (monitorLoop net ident wakes (fst (checkBackend net b ?w1))
         (snd (checkBackend net b ?w1))))))"
    by (meson prefix_order.trans)
  then show ?case
    by (simp add: Let_def case_prod_beta)
qed

lemma monitor_first_pass:
  "prefix (trace (snd (checkBackend net b
       (emit (Debugf (''Initial healthcheck for currentBackend '' @ ident @ '' '')) (emit WgAdd w)))))
     (trace (snd (snd (monitor net ident wakes b w))))"
proof -
  let ?p = "checkBackend net b
       (emit (Debugf (''Initial healthcheck for currentBackend '' @ ident @ '' '')) (emit WgAdd w))"
  let ?w4 = "emit (NewTicker (Interval (fst ?p))) (snd ?p)"
  have a: "prefix (trace (snd ?p)) (trace ?w4)" by simp
  have b: "prefix (trace ?w4) (trace (snd (snd (monitorLoop net ident wakes (fst ?p) ?w4))))"
    by (rule monitorLoop_prefix)
  have c: "prefix (trace (snd ?p)) (trace (snd (snd (monitorLoop net ident wakes (fst ?p) ?w4))))"
    using a b by (meson prefix_order.trans)
  then have d: "prefix (trace (snd ?p))
      (trace (emit WgDone (emit TickerStop (snd (snd (monitorLoop net ident wakes (fst ?p) ?w4))))))"
    by simp
  show ?thesis
    using c d by (simp add: monitor_def Let_def case_prod_beta)
qed

lemma first_pass_lifecycle:
  "filter isLifecycle (since w (snd (checkBackend net b
       (emit (Debugf msg) (emit WgAdd w))))) = [WgAdd]"
proof -
  let ?w2 = "emit (Debugf msg) (emit WgAdd w)"
  have "prefix (trace w) (trace ?w2)" by simp
  then have p: "prefix (trace w) (trace (snd (checkBackend net b ?w2)))"
    using checkBackend_prefix prefix_order.trans by blast
  show ?thesis
    by (rule filter_since[OF p]) (simp add: checkBackend_lifecycle)
qed

lemma monitor_prefix: "prefix (trace w) (trace (snd (snd (monitor net ident wakes b w))))"
proof -
  let ?w2 = "emit (Debugf (''Initial healthcheck for currentBackend '' @ ident @ '' '')) (emit WgAdd w)"
  have "prefix (trace w) (trace ?w2)" by simp
  then have "prefix (trace w) (trace (snd (checkBackend net b ?w2)))"
    using checkBackend_prefix prefix_order.trans by blast
  then show ?thesis
    using monitor_first_pass[of net b ident w wakes] prefix_order.trans by blast
qed

lemma monitor_outcome:
  "0 < Interval b \<Longrightarrow>
     fst (monitor net ident wakes b w) = (if Done \<in> set wakes then Stopped else Waiting)"
  by (simp add: monitor_def Let_def case_prod_beta checkBackend_fields monitorLoop_outcome)

lemma monitor_passes_trace:
  "0 < Interval b \<Longrightarrow>
     count_list (trace (snd (snd (monitor net ident wakes b w)))) CallServers =
       count_list (trace w) CallServers + Suc (length (takeWhile (\<lambda>x. x = Tick) wakes))"
  by (simp add: monitor_def Let_def case_prod_beta checkBackend_fields monitorLoop_outcome
        monitorLoop_passes checkBackend_count_Servers)

lemma monitor_trace_lifecycle:
  "0 < Interval b \<Longrightarrow>
     filter isLifecycle (trace (snd (snd (monitor net ident wakes b w)))) =
       filter isLifecycle (trace w) @ WgAdd # NewTicker (Interval b) #
         (if Done \<in> set wakes then [TickerStop, WgDone] else [])"
  by (simp add: monitor_def Let_def case_prod_beta checkBackend_fields monitorLoop_outcome
        monitorLoop_lifecycle checkBackend_lifecycle)

lemma count_since:
  assumes "prefix (trace w) (trace w')"
  shows "count_list (since w w') x = count_list (trace w') x - count_list (trace w) x"
  using prefix_since[OF assms] by (metis add_diff_cancel_left' count_list_append)

lemma monitor_panics:
  "Interval b \<le> 0 \<Longrightarrow>
     monitor net ident wakes b w =
       (Panicked ''non-positive interval for NewTicker'',
        fst (checkBackend net b
          (emit (Debugf (''Initial healthcheck for currentBackend '' @ ident @ '' '')) (emit WgAdd w))),
        emit WgDone (snd (checkBackend net b
          (emit (Debugf (''Initial healthcheck for currentBackend '' @ ident @ '' '')) (emit WgAdd w)))))"
  by (simp add: monitor_def Let_def case_prod_beta checkBackend_fields)

lemma tickPass_fields:
  "Interval (fst ((tickPass net ident ^^ n) (b, w))) = Interval b"
  "LB (fst ((tickPass net ident ^^ n) (b, w))) = LB b"
  by (induction n) (simp_all add: tickPass_def case_prod_beta checkBackend_fields)

lemma monitorLoop_closed:
  "monitorLoop net ident wakes b w =
     (if Done \<in> set wakes
      then (Stopped,
            fst ((tickPass net ident ^^ length (takeWhile (\<lambda>x. x = Tick) wakes)) (b, w)),
            emit (Debugf ''Stopping all current Healthcheck goroutines'')
              (snd ((tickPass net ident ^^ length (takeWhile (\<lambda>x. x = Tick) wakes)) (b, w))))
      else (Waiting,
            fst ((tickPass net ident ^^ length (takeWhile (\<lambda>x. x = Tick) wakes)) (b, w)),
            snd ((tickPass net ident ^^ length (takeWhile (\<lambda>x. x = Tick) wakes)) (b, w))))"
proof (induction net ident wakes b w rule: monitorLoop.induct)
  case (1 net ident b w)
  show ?case by simp
next
  case (2 net ident wakes b w)
  show ?case by simp
next
  case (3 net ident wakes b w)
  let ?p = "checkBackend net b
      (emit (Debugf (''Refreshing healthcheck for currentBackend '' @ ident @ '' '')) w)"
  have step: "tickPass net ident (b, w) = (fst ?p, snd ?p)"
    by (simp add: tickPass_def)
  have pow: "(tickPass net ident ^^ Suc n) (b, w) = (tickPass net ident ^^ n) (fst ?p, snd ?p)" for n
    by (simp add: funpow_swap1 step)
  have "monitorLoop net ident (Tick # wakes) b w = monitorLoop net ident wakes (fst ?p) (snd ?p)"
    by (simp add: Let_def case_prod_beta)
  also note "3.IH"[OF refl refl prod.collapse]
  finally show ?case
    by (simp add: pow del: funpow.simps)
qed

lemma monitor_closed:
  "monitor net ident wakes b w =
     (let first = checkBackend net b
            (emit (Debugf (''Initial healthcheck for currentBackend '' @ ident @ '' '')) (emit WgAdd w))
      in if Interval b \<le> 0
         then (Panicked ''non-positive interval for NewTicker'', fst first, emit WgDone (snd first))
         else
           let steady = (tickPass net ident ^^ length (takeWhile (\<lambda>x. x = Tick) wakes))
                 (fst first, emit (NewTicker (Interval b)) (snd first))
           in if Done \<in> set wakes
              then (Stopped, fst steady,
                    emit WgDone (emit TickerStop
                      (emit (Debugf ''Stopping all current Healthcheck goroutines'') (snd steady))))
              else (Waiting, fst steady, snd steady))"
  by (simp add: monitor_def monitorLoop_closed Let_def case_prod_beta checkBackend_fields
      del: funpow.simps)

subsection \<open>The registry\<close>

lemma executeLoop_goroutines:
  "goroutines (executeLoop ctx bs rt) =
     goroutines rt @ map (\<lambda>(backendID, backend). (backendID, backend, ctx)) bs"
  by (induction ctx bs rt rule: executeLoop.induct) simp_all

lemma executeLoop_history:
  "history (executeLoop ctx bs rt) =
     history rt @ map (\<lambda>(backendID, backend). SafeGo backendID ctx) bs"
  by (induction ctx bs rt rule: executeLoop.induct) simp_all

lemma executeLoop_rest:
  "nextCtx (executeLoop ctx bs rt) = nextCtx rt"
  "cancelled (executeLoop ctx bs rt) = cancelled rt"
  by (induction ctx bs rt rule: executeLoop.induct) simp_all

lemma SafeGo_no_adapter_call:
  "filter isAdapterCall (map (\<lambda>(backendID, backend). SafeGo backendID ctx) bs) = []"
  by (induction bs) auto

lemma SetBackendsConfiguration_goroutines:
  "goroutines (snd (SetBackendsConfiguration parentCtx backends hc rt)) =
     goroutines rt @ map (\<lambda>(backendID, backend). (backendID, backend, nextCtx rt)) backends"
  by (simp add: SetBackendsConfiguration_def execute_def Let_def executeLoop_goroutines
      split: option.splits)

lemma SetBackendsConfiguration_history:
  "history (snd (SetBackendsConfiguration parentCtx backends hc rt)) =
     history rt @ StoreBackends (map fst backends) #
       (case cancel hc of None \<Rightarrow> [] | Some c \<Rightarrow> [CallCancel c]) @
       WithCancel parentCtx (nextCtx rt) #
       map (\<lambda>(backendID, backend). SafeGo backendID (nextCtx rt)) backends"
  by (simp add: SetBackendsConfiguration_def execute_def Let_def executeLoop_history
      split: option.splits)

lemma SetBackendsConfiguration_state:
  "Backends (fst (SetBackendsConfiguration parentCtx backends hc rt)) = backends"
  "cancel (fst (SetBackendsConfiguration parentCtx backends hc rt)) = Some (nextCtx rt)"
  "nextCtx (snd (SetBackendsConfiguration parentCtx backends hc rt)) = Suc (nextCtx rt)"
  "cancelled (snd (SetBackendsConfiguration parentCtx backends hc rt)) =
     (case cancel hc of None \<Rightarrow> cancelled rt | Some c \<Rightarrow> c # cancelled rt)"
  by (simp_all add: SetBackendsConfiguration_def execute_def Let_def executeLoop_rest
      split: option.splits)

subsection \<open>Errors of the load balancer\<close>

lemma checkHealth_LB [simp]:
  "checkHealth net u (b\<lparr>LB := L\<rparr>) w = checkHealth net u b w"
  by (simp add: checkHealth_def)

lemma sweepDisabled_withoutErrors:
  "sweepDisabled net (b\<lparr>LB := withoutErrors (LB b)\<rparr>) us nd w = sweepDisabled net b us nd w"
  by (induction us arbitrary: nd w)
     (simp_all add: Let_def case_prod_beta withoutErrors_def)

lemma update_swap:
  "(b\<lparr>disabledURLs := ds\<rparr>)\<lparr>LB := L\<rparr> = (b\<lparr>LB := L\<rparr>)\<lparr>disabledURLs := ds\<rparr>"
  by (cases b) simp

lemma sweepEnabled_LB:
  assumes "\<And>u s. snd (RemoveServer L u s) = snd (RemoveServer (LB b) u s)"
  shows "sweepEnabled net us (b\<lparr>LB := L\<rparr>) w =
           ((fst (sweepEnabled net us b w))\<lparr>LB := L\<rparr>, snd (sweepEnabled net us b w))"
  using assms
proof (induction us arbitrary: b w)
  case Nil
  show ?case by simp
next
  case (Cons u us)
  let ?w1 = "snd (checkHealth net u b w)"
  show ?case
  proof (cases "fst (checkHealth net u b w)")
    case True
    have "sweepEnabled net (u # us) (b\<lparr>LB := L\<rparr>) w = sweepEnabled net us (b\<lparr>LB := L\<rparr>) ?w1"
      using True by (simp add: Let_def case_prod_beta)
    also have "\<dots> = ((fst (sweepEnabled net us b ?w1))\<lparr>LB := L\<rparr>, snd (sweepEnabled net us b ?w1))"
      by (rule Cons.IH) (rule Cons.prems)
    finally show ?thesis
      using True by (simp add: Let_def case_prod_beta)
  next
    case False
    let ?b' = "b\<lparr>disabledURLs := disabledURLs b @ [u]\<rparr>"
    let ?w3 = "emit (CallRemoveServer u)
        ((emit (Warnf (''HealthCheck has failed ['' @ u @ '']: Remove from server list'')) ?w1)
           \<lparr>adapter := snd (RemoveServer (LB b) u (adapter ?w1))\<rparr>)"
    have "sweepEnabled net (u # us) (b\<lparr>LB := L\<rparr>) w = sweepEnabled net us (?b'\<lparr>LB := L\<rparr>) ?w3"
      using False by (simp add: Let_def case_prod_beta Cons.prems update_swap)
    also have "\<dots> = ((fst (sweepEnabled net us ?b' ?w3))\<lparr>LB := L\<rparr>, snd (sweepEnabled net us ?b' ?w3))"
      by (rule Cons.IH) (simp add: Cons.prems)
    finally show ?thesis
      using False by (simp add: Let_def case_prod_beta)
  qed
qed

lemma checkBackend_withoutErrors:
  "checkBackend net (b\<lparr>LB := withoutErrors (LB b)\<rparr>) w =
     ((fst (checkBackend net b w))\<lparr>LB := withoutErrors (LB b)\<rparr>, snd (checkBackend net b w))"
proof -
  let ?s1 = "sweepDisabled net b (disabledURLs b) [] (emit CallServers w)"
  let ?b1 = "b\<lparr>disabledURLs := fst ?s1\<rparr>"
  have "checkBackend net (b\<lparr>LB := withoutErrors (LB b)\<rparr>) w =
      sweepEnabled net (Servers (LB b) (adapter w)) (?b1\<lparr>LB := withoutErrors (LB b)\<rparr>) (snd ?s1)"
    using sweepDisabled_withoutErrors[of net b "disabledURLs b" "[]" "emit CallServers w"]
    by (simp add: checkBackend_split update_swap) (simp add: withoutErrors_def)
  also have "\<dots> = ((fst (sweepEnabled net (Servers (LB b) (adapter w)) ?b1 (snd ?s1)))
        \<lparr>LB := withoutErrors (LB b)\<rparr>,
      snd (sweepEnabled net (Servers (LB b) (adapter w)) ?b1 (snd ?s1)))"
    by (rule sweepEnabled_LB) (simp add: withoutErrors_def)
  finally show ?thesis
    by (simp add: checkBackend_split)
qed

lemma monitorLoop_withoutErrors:
  assumes "LB b = L"
  shows "monitorLoop net ident wakes (b\<lparr>LB := withoutErrors L\<rparr>) w =
     (fst (monitorLoop net ident wakes b w),
      (fst (snd (monitorLoop net ident wakes b w)))\<lparr>LB := withoutErrors L\<rparr>,
      snd (snd (monitorLoop net ident wakes b w)))"
  using assms
proof (induction net ident wakes b w rule: monitorLoop.induct)
  case (1 net ident b w)
  show ?case by simp
next
  case (2 net ident wakes b w)
  show ?case by simp
next
  case (3 net ident wakes b w)
  let ?w1 = "emit (Debugf (''Refreshing healthcheck for currentBackend '' @ ident @ '' '')) w"
  let ?p = "checkBackend net b ?w1"
  have L: "LB (fst ?p) = L"
    using "3.prems" by (simp add: checkBackend_fields)
  have "monitorLoop net ident (Tick # wakes) (b\<lparr>LB := withoutErrors L\<rparr>) w =
      monitorLoop net ident wakes ((fst ?p)\<lparr>LB := withoutErrors L\<rparr>) (snd ?p)"
    using checkBackend_withoutErrors[of net b ?w1] "3.prems"
    by (simp add: Let_def case_prod_beta)
  also have "\<dots> = (fst (monitorLoop net ident wakes (fst ?p) (snd ?p)),
      (fst (snd (monitorLoop net ident wakes (fst ?p) (snd ?p))))\<lparr>LB := withoutErrors L\<rparr>,
      snd (snd (monitorLoop net ident wakes (fst ?p) (snd ?p))))"
    by (rule "3.IH"[OF refl refl prod.collapse L])
  finally show ?case
    by (simp add: Let_def case_prod_beta)
qed

lemma monitor_withoutErrors:
  "monitor net ident wakes (b\<lparr>LB := withoutErrors (LB b)\<rparr>) w =
     (fst (monitor net ident wakes b w),
      (fst (snd (monitor net ident wakes b w)))\<lparr>LB := withoutErrors (LB b)\<rparr>,
      snd (snd (monitor net ident wakes b w)))"
proof -
  let ?w2 = "emit (Debugf (''Initial healthcheck for currentBackend '' @ ident @ '' '')) (emit WgAdd w)"
  let ?p = "checkBackend net b ?w2"
  have L: "LB (fst ?p) = LB b"
    by (simp add: checkBackend_fields)
  show ?thesis
    using checkBackend_withoutErrors[of net b ?w2]
      monitorLoop_withoutErrors[OF L, of net ident wakes "emit (NewTicker (Interval b)) (snd ?p)"]
    by (simp add: monitor_def Let_def case_prod_beta checkBackend_fields)
qed

subsection \<open>The scenarios\<close>

lemma downNet_verdicts:
  "healthyAt downNet apiBackend (k, ''s1'')"
  "\<not> healthyAt downNet apiBackend (k, ''s2'')"
  "\<not> healthyAt downNet apiBackend (k, ''s3'')"
  "healthyAt downNet apiBackend (k, ''s4'')"
  by (simp_all add: healthyAt_def downNet_def apiBackend_def NewBackendHealthCheck_def)

lemma apiBackend_fields:
  "LB apiBackend = listLB" "URL apiBackend = ''/health''"
  "requestTimeout apiBackend = 5 * Second" "disabledURLs apiBackend = []"
  "Interval apiBackend = Second"
  by (simp_all add: apiBackend_def NewBackendHealthCheck_def)

lemma listLB_Servers: "Servers listLB s = s"
  by (simp add: listLB_def)

section \<open>The claims\<close>

subsection \<open>The reconciliation pass\<close>

text \<open>
  C1, as amended. A pass of \<^verbatim>\<open>checkBackend\<close> probes every URL of the disabled set, in
  order, and then every URL of the live list it read for this pass. A disabled URL whose
  probe is healthy is upserted with weight 1 and leaves the disabled set; one whose probe
  fails is kept. A live URL whose probe fails is removed from the load balancer and
  appended to the disabled set. The disabled set the pass leaves is the failed disabled
  entries followed by the failed live entries: no URL has more entries in it than it had
  in the disabled set and the list read together, and it has no duplicate entries when
  the disabled set and the list read had none and shared no URL. When the calls to the
  load balancer take effect, the live list after the pass is the one read, with the
  recovered servers added and the failed ones removed.
\<close>

theorem checkBackend_reconciles:
  "let D = disabledURLs b; E = Servers (LB b) (adapter w);
       healthy1 = filter (healthyAt net b) (enumerate (clock w) D);
       failed1 = filter (\<lambda>p. \<not> healthyAt net b p) (enumerate (clock w) D);
       failed2 = filter (\<lambda>p. \<not> healthyAt net b p) (enumerate (clock w + length D) E);
       b' = fst (checkBackend net b w); w' = snd (checkBackend net b w)
   in filter isRequest (trace w') =
        filter isRequest (trace w) @ map (\<lambda>u. Get (u @ URL b) (requestTimeout b)) (D @ E)
    \<and> filter isAdapterCall (trace w') =
        filter isAdapterCall (trace w) @ CallServers #
        map (\<lambda>p. CallUpsertServer (snd p) 1) healthy1 @
        map (\<lambda>p. CallRemoveServer (snd p)) failed2
    \<and> disabledURLs b' = map snd failed1 @ map snd failed2
    \<and> (\<forall>u. count_list (disabledURLs b') u \<le> count_list D u + count_list E u)
    \<and> (distinct D \<and> distinct E \<and> set D \<inter> set E = {} \<longrightarrow> distinct (disabledURLs b'))
    \<and> (takesEffect (LB b) \<longrightarrow>
         set (Servers (LB b) (adapter w')) = (set E \<union> snd ` set healthy1) - snd ` set failed2)"
proof -
  have dist: "distinct (disabledURLs (fst (checkBackend net b w)))"
    if "distinct (disabledURLs b)" "distinct (Servers (LB b) (adapter w))"
      "set (disabledURLs b) \<inter> set (Servers (LB b) (adapter w)) = {}"
  proof -
    have "snd ` set (filter (\<lambda>p. \<not> healthyAt net b p) (enumerate (clock w) (disabledURLs b)))
        \<subseteq> set (disabledURLs b)"
      by (rule failed_subset)
    moreover have "snd ` set (filter (\<lambda>p. \<not> healthyAt net b p)
        (enumerate (clock w + length (disabledURLs b)) (Servers (LB b) (adapter w))))
        \<subseteq> set (Servers (LB b) (adapter w))"
      by (rule failed_subset)
    ultimately have "snd ` set (filter (\<lambda>p. \<not> healthyAt net b p) (enumerate (clock w) (disabledURLs b)))
        \<inter> snd ` set (filter (\<lambda>p. \<not> healthyAt net b p)
        (enumerate (clock w + length (disabledURLs b)) (Servers (LB b) (adapter w)))) = {}"
      using that(3) by blast
    then show ?thesis
      using that(1,2) by (simp add: checkBackend_disabled distinct_kept)
  qed
  have cnt: "count_list (disabledURLs (fst (checkBackend net b w))) u \<le>
      count_list (disabledURLs b) u + count_list (Servers (LB b) (adapter w)) u" for u
    by (simp add: checkBackend_disabled add_mono count_list_kept)
  show ?thesis
    unfolding Let_def
    using checkBackend_live[of b net w] dist cnt
    by (simp add: checkBackend_requests checkBackend_calls checkBackend_disabled)
qed

text \<open>
  A pass on which every branch runs: s1 and s2 are disabled, s3 and s4 are live; s1
  recovers and is upserted, s2 stays disabled, s3 fails and is removed, s4 stays live.
\<close>

theorem checkBackend_reconciles_witness:
  "distinct (disabledURLs (apiBackend\<lparr>disabledURLs := [''s1'', ''s2'']\<rparr>))
   \<and> distinct (Servers listLB [''s3'', ''s4''])
   \<and> set (disabledURLs (apiBackend\<lparr>disabledURLs := [''s1'', ''s2'']\<rparr>)) \<inter>
       set (Servers listLB [''s3'', ''s4'']) = {}
   \<and> takesEffect (LB (apiBackend\<lparr>disabledURLs := [''s1'', ''s2'']\<rparr>))
   \<and> filter isRequest (trace (snd (checkBackend downNet (apiBackend\<lparr>disabledURLs := [''s1'', ''s2'']\<rparr>)
        \<lparr>adapter = [''s3'', ''s4''], clock = 0, trace = []\<rparr>))) =
       [Get ''s1/health'' (5 * Second), Get ''s2/health'' (5 * Second),
        Get ''s3/health'' (5 * Second), Get ''s4/health'' (5 * Second)]
   \<and> filter isAdapterCall (trace (snd (checkBackend downNet (apiBackend\<lparr>disabledURLs := [''s1'', ''s2'']\<rparr>)
        \<lparr>adapter = [''s3'', ''s4''], clock = 0, trace = []\<rparr>))) =
       [CallServers, CallUpsertServer ''s1'' 1, CallRemoveServer ''s3'']
   \<and> disabledURLs (fst (checkBackend downNet (apiBackend\<lparr>disabledURLs := [''s1'', ''s2'']\<rparr>)
        \<lparr>adapter = [''s3'', ''s4''], clock = 0, trace = []\<rparr>)) = [''s2'', ''s3'']
   \<and> distinct (disabledURLs (fst (checkBackend downNet (apiBackend\<lparr>disabledURLs := [''s1'', ''s2'']\<rparr>)
        \<lparr>adapter = [''s3'', ''s4''], clock = 0, trace = []\<rparr>)))
   \<and> set (Servers listLB (adapter (snd (checkBackend downNet (apiBackend\<lparr>disabledURLs := [''s1'', ''s2'']\<rparr>)
        \<lparr>adapter = [''s3'', ''s4''], clock = 0, trace = []\<rparr>)))) = {''s1'', ''s4''}"
proof -
  let ?b = "apiBackend\<lparr>disabledURLs := [''s1'', ''s2'']\<rparr>"
  let ?w = "\<lparr>adapter = [''s3'', ''s4''], clock = 0, trace = []\<rparr> :: url list world"
  note pass = checkBackend_reconciles[of ?b ?w downNet, unfolded Let_def]
  have eff: "takesEffect (LB ?b)"
    by (simp add: apiBackend_fields listLB_takesEffect)
  have 1: "filter isRequest (trace (snd (checkBackend downNet ?b ?w))) =
       [Get ''s1/health'' (5 * Second), Get ''s2/health'' (5 * Second),
        Get ''s3/health'' (5 * Second), Get ''s4/health'' (5 * Second)]"
    using pass[THEN conjunct1] by (simp add: apiBackend_fields listLB_Servers)
  have 2: "filter isAdapterCall (trace (snd (checkBackend downNet ?b ?w))) =
       [CallServers, CallUpsertServer ''s1'' 1, CallRemoveServer ''s3'']"
    using pass[THEN conjunct2, THEN conjunct1]
    by (simp add: apiBackend_fields listLB_Servers downNet_verdicts)
  have 3: "disabledURLs (fst (checkBackend downNet ?b ?w)) = [''s2'', ''s3'']"
    using pass[THEN conjunct2, THEN conjunct2, THEN conjunct1]
    by (simp add: apiBackend_fields listLB_Servers downNet_verdicts)
  have 4: "distinct (disabledURLs (fst (checkBackend downNet ?b ?w)))"
    by (rule pass[THEN conjunct2, THEN conjunct2, THEN conjunct2, THEN conjunct2,
          THEN conjunct1, THEN mp])
       (simp add: apiBackend_fields listLB_Servers)
  have 5: "set (Servers listLB (adapter (snd (checkBackend downNet ?b ?w)))) = {''s1'', ''s4''}"
    using pass[THEN conjunct2, THEN conjunct2, THEN conjunct2, THEN conjunct2,
          THEN conjunct2, THEN mp, OF eff]
    by (simp add: apiBackend_fields listLB_Servers downNet_verdicts insert_Diff_if)
  show ?thesis
    using eff 1 2 3 4 5 by (simp add: apiBackend_fields listLB_Servers)
qed

text \<open>
  C1 as stated fails: the disabled set can get duplicate entries. On a new backend whose
  live list holds the failing s2 and whose \<^verbatim>\<open>RemoveServer\<close> fails, the first pass leaves
  s2 disabled and still live, and the second pass keeps the entry of s2 and appends
  another one.
\<close>

theorem duplicate_after_failed_removal_counterexample:
  "disabledURLs (NewBackendHealthCheck \<lparr>URL = ''/health'', Interval = Second, LB = failingLB\<rparr>) = []
   \<and> disabledURLs (fst (checkBackend downNet
        (NewBackendHealthCheck \<lparr>URL = ''/health'', Interval = Second, LB = failingLB\<rparr>)
        \<lparr>adapter = [''s2''], clock = 0, trace = []\<rparr>)) = [''s2'']
   \<and> disabledURLs (fst (checkBackend downNet
        (fst (checkBackend downNet
          (NewBackendHealthCheck \<lparr>URL = ''/health'', Interval = Second, LB = failingLB\<rparr>)
          \<lparr>adapter = [''s2''], clock = 0, trace = []\<rparr>))
        (snd (checkBackend downNet
          (NewBackendHealthCheck \<lparr>URL = ''/health'', Interval = Second, LB = failingLB\<rparr>)
          \<lparr>adapter = [''s2''], clock = 0, trace = []\<rparr>)))) = [''s2'', ''s2'']
   \<and> \<not> distinct (disabledURLs (fst (checkBackend downNet
        (fst (checkBackend downNet
          (NewBackendHealthCheck \<lparr>URL = ''/health'', Interval = Second, LB = failingLB\<rparr>)
          \<lparr>adapter = [''s2''], clock = 0, trace = []\<rparr>))
        (snd (checkBackend downNet
          (NewBackendHealthCheck \<lparr>URL = ''/health'', Interval = Second, LB = failingLB\<rparr>)
          \<lparr>adapter = [''s2''], clock = 0, trace = []\<rparr>)))))"
  by (simp add: downNet_def NewBackendHealthCheck_def failingLB_def
      checkBackend_def checkHealth_def emit_def Let_def)

subsection \<open>The probe\<close>

text \<open>
  C2. A call of \<^verbatim>\<open>checkHealth\<close> answers healthy exactly when the GET to
  \<^verbatim>\<open>serverURL + path\<close> completes without an error and with status code 200 (so an
  error, or any other status code, is unhealthy), and it issues exactly one request: the
  requests of the trace grow by that single GET, with the backend's request timeout.
\<close>

theorem checkHealth_single_get:
  "fst (checkHealth net serverURL backend w) =
     (net (clock w) (serverURL @ URL backend) (requestTimeout backend) = Response 200)
   \<and> filter isRequest (trace (snd (checkHealth net serverURL backend w))) =
       filter isRequest (trace w) @ [Get (serverURL @ URL backend) (requestTimeout backend)]
   \<and> clock (snd (checkHealth net serverURL backend w)) = Suc (clock w)"
  by (simp add: checkHealth_obs healthyAt_def)

subsection \<open>Enabled or disabled\<close>

text \<open>
  C3, as amended. When the calls to the load balancer take effect, and before the pass the
  disabled set and the live list are duplicate-free and share no URL, then after the pass
  every URL that was in either of them is in exactly one of them: between them they hold
  the same URLs as before, they share none, and both are again duplicate-free (so the same
  holds after every later pass).
\<close>

theorem checkBackend_exactly_one:
  assumes eff: "takesEffect (LB b)"
    and dD: "distinct (disabledURLs b)"
    and dE: "distinct (Servers (LB b) (adapter w))"
    and disj: "set (disabledURLs b) \<inter> set (Servers (LB b) (adapter w)) = {}"
  shows "set (disabledURLs (fst (checkBackend net b w))) \<union>
           set (Servers (LB b) (adapter (snd (checkBackend net b w)))) =
         set (disabledURLs b) \<union> set (Servers (LB b) (adapter w))
       \<and> set (disabledURLs (fst (checkBackend net b w))) \<inter>
           set (Servers (LB b) (adapter (snd (checkBackend net b w)))) = {}
       \<and> distinct (disabledURLs (fst (checkBackend net b w)))
       \<and> distinct (Servers (LB b) (adapter (snd (checkBackend net b w))))"
proof -
  define D where "D = disabledURLs b"
  define E where "E = Servers (LB b) (adapter w)"
  define H1 where "H1 = snd ` set (filter (healthyAt net b) (enumerate (clock w) D))"
  define F1 where "F1 = snd ` set (filter (\<lambda>p. \<not> healthyAt net b p) (enumerate (clock w) D))"
  define F2 where "F2 = snd ` set (filter (\<lambda>p. \<not> healthyAt net b p) (enumerate (clock w + length D) E))"
  have part: "H1 \<union> F1 = set D"
    unfolding H1_def F1_def by (rule verdicts_partition)
  have apart: "H1 \<inter> F1 = {}"
    unfolding H1_def F1_def D_def by (rule verdicts_disjoint[OF dD])
  have sub: "F2 \<subseteq> set E"
    unfolding F2_def by (rule failed_subset)
  have DE: "set D \<inter> set E = {}"
    using disj by (simp add: D_def E_def)
  have live: "set (Servers (LB b) (adapter (snd (checkBackend net b w)))) = (set E \<union> H1) - F2"
    using checkBackend_live[OF eff, of net w] by (simp add: D_def E_def H1_def F2_def)
  have dis: "set (disabledURLs (fst (checkBackend net b w))) = F1 \<union> F2"
    by (simp add: checkBackend_disabled D_def E_def F1_def F2_def)
  have one: "(F1 \<union> F2) \<union> ((set E \<union> H1) - F2) = set D \<union> set E"
    using part sub by blast
  have two: "(F1 \<union> F2) \<inter> ((set E \<union> H1) - F2) = {}"
    using part apart DE by blast
  have three: "distinct (disabledURLs (fst (checkBackend net b w)))"
  proof -
    have "F1 \<inter> F2 = {}"
      using part sub DE by blast
    then show ?thesis
      using dD dE
      by (simp add: checkBackend_disabled distinct_kept D_def E_def F1_def F2_def)
  qed
  show ?thesis
    using one two three checkBackend_live_distinct[OF eff dE, of net]
    by (simp add: live dis D_def E_def)
qed

text \<open>
  The first pass of the scenario: s1 stays live, s2 becomes disabled.
\<close>

theorem checkBackend_exactly_one_witness:
  "takesEffect (LB apiBackend)
   \<and> distinct (disabledURLs apiBackend)
   \<and> distinct (Servers (LB apiBackend) (adapter apiWorld))
   \<and> set (disabledURLs apiBackend) \<inter> set (Servers (LB apiBackend) (adapter apiWorld)) = {}
   \<and> disabledURLs (fst (checkBackend apiNet apiBackend apiWorld)) = [''s2'']
   \<and> Servers (LB apiBackend) (adapter (snd (checkBackend apiNet apiBackend apiWorld))) = [''s1'']
   \<and> set (disabledURLs (fst (checkBackend apiNet apiBackend apiWorld))) \<union>
       set (Servers (LB apiBackend) (adapter (snd (checkBackend apiNet apiBackend apiWorld)))) =
       {''s1'', ''s2''}"
proof -
  have eff: "takesEffect (LB apiBackend)"
    by (simp add: apiBackend_def NewBackendHealthCheck_def listLB_takesEffect)
  have ev: "disabledURLs (fst (checkBackend apiNet apiBackend apiWorld)) = [''s2'']
    \<and> Servers (LB apiBackend) (adapter (snd (checkBackend apiNet apiBackend apiWorld))) = [''s1'']"
    by (simp add: apiWorld_def apiBackend_def apiNet_def NewBackendHealthCheck_def listLB_def
        checkBackend_def checkHealth_def emit_def Let_def)
  show ?thesis
    using eff ev checkBackend_exactly_one[OF eff, of apiWorld apiNet]
    by (auto simp add: apiWorld_def apiBackend_def NewBackendHealthCheck_def listLB_def)
qed

text \<open>
  C3 as stated fails when a call to the load balancer fails: on a new backend whose live
  list holds the failing s2, \<^verbatim>\<open>RemoveServer\<close> returns an error and leaves the list as it
  is, the code appends s2 to the disabled set all the same, and after the pass s2 is in
  both.
\<close>

theorem failed_removal_counterexample:
  "disabledURLs (NewBackendHealthCheck \<lparr>URL = ''/health'', Interval = Second, LB = failingLB\<rparr>) = []
   \<and> fst (RemoveServer failingLB ''s2'' [''s1'', ''s2'']) = Some ''remove failed''
   \<and> ''s2'' \<in> set (disabledURLs (fst (checkBackend apiNet
        (NewBackendHealthCheck \<lparr>URL = ''/health'', Interval = Second, LB = failingLB\<rparr>) apiWorld)))
   \<and> ''s2'' \<in> set (Servers failingLB (adapter (snd (checkBackend apiNet
        (NewBackendHealthCheck \<lparr>URL = ''/health'', Interval = Second, LB = failingLB\<rparr>) apiWorld))))"
  by (simp add: apiWorld_def apiNet_def NewBackendHealthCheck_def failingLB_def
      checkBackend_def checkHealth_def emit_def Let_def)

subsection \<open>A backend with a non-positive interval\<close>

text \<open>
  C4, as amended. \<^verbatim>\<open>SetBackendsConfiguration\<close> rejects nothing: it starts a goroutine
  for every entry of the set it is given, whatever the interval. The monitor of a backend
  whose interval is not positive runs its first pass and then panics where it creates its
  ticker.
\<close>

theorem interval_not_validated:
  "goroutines (snd (SetBackendsConfiguration parentCtx backends hc rt)) =
     goroutines rt @ map (\<lambda>(backendID, backend). (backendID, backend, nextCtx rt)) backends
   \<and> (Interval b \<le> 0 \<longrightarrow>
       monitor net ident wakes b w =
         (Panicked ''non-positive interval for NewTicker'',
          fst (checkBackend net b
            (emit (Debugf (''Initial healthcheck for currentBackend '' @ ident @ '' '')) (emit WgAdd w))),
          emit WgDone (snd (checkBackend net b
            (emit (Debugf (''Initial healthcheck for currentBackend '' @ ident @ '' '')) (emit WgAdd w))))))"
  using SetBackendsConfiguration_goroutines monitor_panics by blast

text \<open>
  A backend with a negative interval: its monitor runs one pass and panics.
\<close>

theorem interval_not_validated_witness:
  "Interval (apiBackend\<lparr>Interval := - Second\<rparr>) \<le> 0
   \<and> fst (monitor apiNet ''api'' [Tick, Done] (apiBackend\<lparr>Interval := - Second\<rparr>) apiWorld) =
       Panicked ''non-positive interval for NewTicker''
   \<and> count_list (trace (snd (snd (monitor apiNet ''api'' [Tick, Done]
        (apiBackend\<lparr>Interval := - Second\<rparr>) apiWorld)))) CallServers = 1"
proof -
  have neg: "Interval (apiBackend\<lparr>Interval := - Second\<rparr>) \<le> 0"
    by (simp add: Second_def)
  from neg interval_not_validated[of 0 "[]" newHealthCheck
      "\<lparr>nextCtx = 1, cancelled = [], goroutines = [], history = []\<rparr>"
      "apiBackend\<lparr>Interval := - Second\<rparr>" apiNet "''api''" "[Tick, Done]" apiWorld]
  have m: "monitor apiNet ''api'' [Tick, Done] (apiBackend\<lparr>Interval := - Second\<rparr>) apiWorld =
         (Panicked ''non-positive interval for NewTicker'',
          fst (checkBackend apiNet (apiBackend\<lparr>Interval := - Second\<rparr>)
            (emit (Debugf (''Initial healthcheck for currentBackend '' @ ''api'' @ '' '')) (emit WgAdd apiWorld))),
          emit WgDone (snd (checkBackend apiNet (apiBackend\<lparr>Interval := - Second\<rparr>)
            (emit (Debugf (''Initial healthcheck for currentBackend '' @ ''api'' @ '' '')) (emit WgAdd apiWorld)))))"
    by blast
  have t: "trace apiWorld = []"
    by (simp add: apiWorld_def)
  show ?thesis
    using neg by (simp add: m checkBackend_count_Servers t)
qed

text \<open>
  C4 as stated fails: a set with a backend of interval 0 is stored, its goroutine is
  started, and the monitor panics after its first pass.
\<close>

theorem zero_interval_counterexample:
  "Interval (apiBackend\<lparr>Interval := 0\<rparr>) \<le> 0
   \<and> goroutines (snd (SetBackendsConfiguration 0 [(''api'', apiBackend\<lparr>Interval := 0\<rparr>)] newHealthCheck
        \<lparr>nextCtx = 1, cancelled = [], goroutines = [], history = []\<rparr>)) =
       [(''api'', apiBackend\<lparr>Interval := 0\<rparr>, 1)]
   \<and> history (snd (SetBackendsConfiguration 0 [(''api'', apiBackend\<lparr>Interval := 0\<rparr>)] newHealthCheck
        \<lparr>nextCtx = 1, cancelled = [], goroutines = [], history = []\<rparr>)) =
       [StoreBackends [''api''], WithCancel 0 1, SafeGo ''api'' 1]
   \<and> fst (monitor apiNet ''api'' [Tick] (apiBackend\<lparr>Interval := 0\<rparr>) apiWorld) =
       Panicked ''non-positive interval for NewTicker''"
  by (simp add: SetBackendsConfiguration_def execute_def newHealthCheck_def Let_def
      monitor_def case_prod_beta checkBackend_fields)

subsection \<open>Setting a configuration\<close>

text \<open>
  C5. A call of \<^verbatim>\<open>SetBackendsConfiguration\<close> stores the new set, then calls the stored
  cancel function when there is one, then derives a fresh child context of the parent and
  stores its cancel function, then starts one goroutine per entry of the new set, each with
  that context; the call itself calls no method of a load balancer. With the empty set it
  starts no goroutine, so no monitor runs and \<^verbatim>\<open>Servers()\<close> is not called.
\<close>

theorem SetBackendsConfiguration_sequence:
  "Backends (fst (SetBackendsConfiguration parentCtx backends hc rt)) = backends
   \<and> cancel (fst (SetBackendsConfiguration parentCtx backends hc rt)) = Some (nextCtx rt)
   \<and> history (snd (SetBackendsConfiguration parentCtx backends hc rt)) =
       history rt @ StoreBackends (map fst backends) #
         (case cancel hc of None \<Rightarrow> [] | Some c \<Rightarrow> [CallCancel c]) @
         WithCancel parentCtx (nextCtx rt) #
         map (\<lambda>(backendID, backend). SafeGo backendID (nextCtx rt)) backends
   \<and> cancelled (snd (SetBackendsConfiguration parentCtx backends hc rt)) =
       (case cancel hc of None \<Rightarrow> cancelled rt | Some c \<Rightarrow> c # cancelled rt)
   \<and> nextCtx (snd (SetBackendsConfiguration parentCtx backends hc rt)) = Suc (nextCtx rt)
   \<and> goroutines (snd (SetBackendsConfiguration parentCtx backends hc rt)) =
       goroutines rt @ map (\<lambda>(backendID, backend). (backendID, backend, nextCtx rt)) backends
   \<and> goroutines (snd (SetBackendsConfiguration parentCtx [] hc rt)) = goroutines rt
   \<and> filter isAdapterCall (history (snd (SetBackendsConfiguration parentCtx backends hc rt))) =
       filter isAdapterCall (history rt)"
  by (simp add: SetBackendsConfiguration_goroutines SetBackendsConfiguration_history
      SetBackendsConfiguration_state SafeGo_no_adapter_call split: option.splits)

subsection \<open>The life of a monitor\<close>

text \<open>
  C6, as amended. The goroutine of a monitor starts with one whole pass, whatever the
  interval: the trace up to the end of that pass is a prefix of the trace of every run,
  and the only event of the goroutine itself up to there is \<^verbatim>\<open>wg.Add\<close> (the ticker does
  not exist yet). When the interval is positive the monitor creates its ticker and then
  runs, for each tick it takes before it takes a cancellation, the log line of the tick
  followed by a pass of \<^verbatim>\<open>checkBackend\<close> on the backend and the world the previous pass
  left; it is stopped exactly when it has taken a cancellation, and then it stops its
  ticker, and it is waiting in its \<^verbatim>\<open>select\<close> otherwise. When the interval is not positive
  the monitor panics where it creates its ticker, right after the first pass: it takes no
  tick and no cancellation and has no ticker to stop.
\<close>

theorem monitor_lifecycle:
  "monitor net ident wakes b w =
     (let first = checkBackend net b
            (emit (Debugf (''Initial healthcheck for currentBackend '' @ ident @ '' '')) (emit WgAdd w))
      in if Interval b \<le> 0
         then (Panicked ''non-positive interval for NewTicker'', fst first, emit WgDone (snd first))
         else
           let steady = (tickPass net ident ^^ length (takeWhile (\<lambda>x. x = Tick) wakes))
                 (fst first, emit (NewTicker (Interval b)) (snd first))
           in if Done \<in> set wakes
              then (Stopped, fst steady,
                    emit WgDone (emit TickerStop
                      (emit (Debugf ''Stopping all current Healthcheck goroutines'') (snd steady))))
              else (Waiting, fst steady, snd steady))
   \<and> prefix (trace (snd (checkBackend net b
       (emit (Debugf (''Initial healthcheck for currentBackend '' @ ident @ '' '')) (emit WgAdd w)))))
     (trace (snd (snd (monitor net ident wakes b w))))
   \<and> filter isLifecycle (since w (snd (checkBackend net b
       (emit (Debugf (''Initial healthcheck for currentBackend '' @ ident @ '' '')) (emit WgAdd w)))))
       = [WgAdd]
   \<and> filter isLifecycle (since w (snd (snd (monitor net ident wakes b w)))) =
       (if Interval b \<le> 0 then [WgAdd, WgDone]
        else WgAdd # NewTicker (Interval b) #
            (if Done \<in> set wakes then [TickerStop, WgDone] else []))
   \<and> count_list (since w (snd (snd (monitor net ident wakes b w)))) CallServers =
       (if Interval b \<le> 0 then 1 else Suc (length (takeWhile (\<lambda>x. x = Tick) wakes)))"
proof -
  let ?first = "checkBackend net b
       (emit (Debugf (''Initial healthcheck for currentBackend '' @ ident @ '' '')) (emit WgAdd w))"
  have pre: "prefix (trace w) (trace (snd (snd (monitor net ident wakes b w))))"
    by (rule monitor_prefix)
  have life: "filter isLifecycle (since w (snd (snd (monitor net ident wakes b w)))) =
       (if Interval b \<le> 0 then [WgAdd, WgDone]
        else WgAdd # NewTicker (Interval b) #
            (if Done \<in> set wakes then [TickerStop, WgDone] else []))"
  proof (cases "Interval b \<le> 0")
    case True
    have "filter isLifecycle (trace (snd (snd (monitor net ident wakes b w)))) =
        filter isLifecycle (trace w) @ [WgAdd, WgDone]"
      using True by (simp add: monitor_panics checkBackend_lifecycle)
    from filter_since[OF pre this] True show ?thesis by simp
  next
    case False
    then have pos: "0 < Interval b" by simp
    from filter_since[OF pre monitor_trace_lifecycle[OF pos]] False show ?thesis by simp
  qed
  have cnt: "count_list (since w (snd (snd (monitor net ident wakes b w)))) CallServers =
       (if Interval b \<le> 0 then 1 else Suc (length (takeWhile (\<lambda>x. x = Tick) wakes)))"
  proof (cases "Interval b \<le> 0")
    case True
    then show ?thesis
      by (simp add: count_since[OF pre]) (simp add: monitor_panics checkBackend_count_Servers)
  next
    case False
    then show ?thesis
      by (simp add: count_since[OF pre] monitor_passes_trace)
  qed
  show ?thesis
    using monitor_closed[of net ident wakes b w] monitor_first_pass[of net b ident w wakes]
      first_pass_lifecycle[of w net b] life cnt
    by blast
qed

text \<open>
  The scenario with a tick and then the cancellation: the first pass disables s2, the pass
  of the tick finds it healthy and upserts it, and the monitor stops its ticker.
\<close>

theorem monitor_lifecycle_witness:
  "fst (monitor apiNet ''api'' [Tick, Done, Tick] apiBackend apiWorld) = Stopped
   \<and> disabledURLs (fst (snd (monitor apiNet ''api'' [Tick, Done, Tick] apiBackend apiWorld))) = []
   \<and> adapter (snd (snd (monitor apiNet ''api'' [Tick, Done, Tick] apiBackend apiWorld))) =
       [''s1'', ''s2'']
   \<and> trace (snd (snd (monitor apiNet ''api'' [Tick, Done, Tick] apiBackend apiWorld))) =
       [WgAdd, Debugf ''Initial healthcheck for currentBackend api '',
        CallServers, Get ''s1/health'' (5 * Second), BodyClose ''s1/health'',
        Get ''s2/health'' (5 * Second),
        Warnf ''HealthCheck has failed [s2]: Remove from server list'',
        CallRemoveServer ''s2'', NewTicker Second,
        Debugf ''Refreshing healthcheck for currentBackend api '',
        CallServers, Get ''s2/health'' (5 * Second), BodyClose ''s2/health'',
        Debugf ''HealthCheck is up [s2]: Upsert in server list'',
        CallUpsertServer ''s2'' 1, Get ''s1/health'' (5 * Second), BodyClose ''s1/health'',
        Debugf ''Stopping all current Healthcheck goroutines'', TickerStop, WgDone]"
proof -
  have pos: "\<not> Interval apiBackend \<le> 0"
    by (simp add: apiBackend_def NewBackendHealthCheck_def Second_def)
  have n: "length (takeWhile (\<lambda>x. x = Tick) [Tick, Done, Tick]) = 1"
    by simp
  from monitor_lifecycle[of apiNet "''api''" "[Tick, Done, Tick]" apiBackend apiWorld]
  have "monitor apiNet ''api'' [Tick, Done, Tick] apiBackend apiWorld =
      (let first = checkBackend apiNet apiBackend
            (emit (Debugf (''Initial healthcheck for currentBackend '' @ ''api'' @ '' '')) (emit WgAdd apiWorld));
           steady = tickPass apiNet ''api'' (fst first, emit (NewTicker (Interval apiBackend)) (snd first))
       in (Stopped, fst steady,
           emit WgDone (emit TickerStop
             (emit (Debugf ''Stopping all current Healthcheck goroutines'') (snd steady)))))"
    using pos by (simp add: n Let_def)
  then show ?thesis
    by (simp add: tickPass_def checkBackend_def checkHealth_def emit_def Let_def
        apiBackend_def apiWorld_def apiNet_def NewBackendHealthCheck_def listLB_def)
qed

text \<open>
  C6 as stated fails for a monitor whose interval is not positive: offered a tick and a
  cancellation, it runs its first pass only and ends by the panic, with no ticker created
  or stopped.
\<close>

theorem nonpositive_interval_never_steady_counterexample:
  "Interval (apiBackend\<lparr>Interval := - Second\<rparr>) \<le> 0
   \<and> fst (monitor apiNet ''api'' [Tick, Done] (apiBackend\<lparr>Interval := - Second\<rparr>) apiWorld) =
       Panicked ''non-positive interval for NewTicker''
   \<and> trace (snd (snd (monitor apiNet ''api'' [Tick, Done] (apiBackend\<lparr>Interval := - Second\<rparr>) apiWorld))) =
       [WgAdd, Debugf ''Initial healthcheck for currentBackend api '',
        CallServers, Get ''s1/health'' (5 * Second), BodyClose ''s1/health'',
        Get ''s2/health'' (5 * Second),
        Warnf ''HealthCheck has failed [s2]: Remove from server list'',
        CallRemoveServer ''s2'', WgDone]"
  by (simp add: monitor_def checkBackend_def checkHealth_def emit_def Let_def
      apiBackend_def apiWorld_def apiNet_def NewBackendHealthCheck_def listLB_def Second_def)

subsection \<open>An error of the load balancer during a pass\<close>

text \<open>
  C7, as amended. An error that \<^verbatim>\<open>UpsertServer\<close> or \<^verbatim>\<open>RemoveServer\<close> returns is
  dropped: a pass, and the whole run of a monitor, is the same in every respect (the
  events with their log lines, the disabled set, the state of the load balancer, the
  outcome of the loop) as with the load balancer that returns nil instead. So nothing is
  logged on account of the error, nothing is rolled back, and the loop is not aborted.
\<close>

theorem adapter_errors_dropped:
  "checkBackend net (b\<lparr>LB := withoutErrors (LB b)\<rparr>) w =
     ((fst (checkBackend net b w))\<lparr>LB := withoutErrors (LB b)\<rparr>, snd (checkBackend net b w))
   \<and> monitor net ident wakes (b\<lparr>LB := withoutErrors (LB b)\<rparr>) w =
     (fst (monitor net ident wakes b w),
      (fst (snd (monitor net ident wakes b w)))\<lparr>LB := withoutErrors (LB b)\<rparr>,
      snd (snd (monitor net ident wakes b w)))"
  using checkBackend_withoutErrors monitor_withoutErrors by blast

text \<open>
  C7 as stated fails: s2 is disabled and answers 200, \<^verbatim>\<open>UpsertServer\<close> returns an error,
  and the pass logs the debug line it logs before the call and no warning.
\<close>

theorem adapter_error_not_logged_counterexample:
  "fst (UpsertServer failingLB ''s2'' 1 []) = Some ''upsert failed''
   \<and> trace (snd (checkBackend apiNet (apiBackend\<lparr>LB := failingLB, disabledURLs := [''s2'']\<rparr>)
        \<lparr>adapter = [], clock = 2, trace = []\<rparr>)) =
       [CallServers, Get ''s2/health'' (5 * Second), BodyClose ''s2/health'',
        Debugf ''HealthCheck is up [s2]: Upsert in server list'', CallUpsertServer ''s2'' 1]
   \<and> filter isWarning (trace (snd (checkBackend apiNet
        (apiBackend\<lparr>LB := failingLB, disabledURLs := [''s2'']\<rparr>)
        \<lparr>adapter = [], clock = 2, trace = []\<rparr>))) = []"
  by (simp add: apiBackend_def apiNet_def NewBackendHealthCheck_def
      failingLB_def checkBackend_def checkHealth_def emit_def Let_def Second_def)

subsection \<open>The two sweeps of one pass\<close>

text \<open>
  C8, as amended. A URL of the disabled set whose probe fails in step 1 stays in the
  disabled set, and step 2 of the same pass probes it again exactly when it is also in the
  live list that was read at the start of the pass (so it is not probed again when it is
  not in that list).
\<close>

theorem failed_in_step1_probed_again:
  assumes "(k, u) \<in> set (enumerate (clock w) (disabledURLs b))"
    and "\<not> healthyAt net b (k, u)"
  shows "u \<in> set (disabledURLs (fst (checkBackend net b w)))
       \<and> (Get (u @ URL b) (requestTimeout b) \<in> set (step2Events net b w) \<longleftrightarrow>
            u \<in> set (Servers (LB b) (adapter w)))"
proof -
  from assms have "u \<in> snd ` set (filter (\<lambda>p. \<not> healthyAt net b p)
      (enumerate (clock w) (disabledURLs b)))"
    by force
  then have "u \<in> set (disabledURLs (fst (checkBackend net b w)))"
    by (simp add: checkBackend_disabled)
  then show ?thesis
    by (simp add: probed_in_step2)
qed

text \<open>
  With s2 disabled, not live and failing, the pass keeps s2 disabled and step 2 does not
  probe it.
\<close>

theorem failed_in_step1_probed_again_witness:
  "(1, ''s2'') \<in> set (enumerate (clock (apiWorld\<lparr>adapter := [''s1''], clock := 1\<rparr>))
       (disabledURLs (apiBackend\<lparr>disabledURLs := [''s2'']\<rparr>)))
   \<and> \<not> healthyAt apiNet (apiBackend\<lparr>disabledURLs := [''s2'']\<rparr>) (1, ''s2'')
   \<and> ''s2'' \<in> set (disabledURLs (fst (checkBackend apiNet (apiBackend\<lparr>disabledURLs := [''s2'']\<rparr>)
         (apiWorld\<lparr>adapter := [''s1''], clock := 1\<rparr>))))
   \<and> Get ''s2/health'' (5 * Second) \<notin> set (step2Events apiNet (apiBackend\<lparr>disabledURLs := [''s2'']\<rparr>)
         (apiWorld\<lparr>adapter := [''s1''], clock := 1\<rparr>))"
  using failed_in_step1_probed_again[of 1 "''s2''" "apiWorld\<lparr>adapter := [''s1''], clock := 1\<rparr>"
      "apiBackend\<lparr>disabledURLs := [''s2'']\<rparr>" apiNet]
  by (simp add: apiWorld_def apiBackend_def apiNet_def healthyAt_def NewBackendHealthCheck_def
      listLB_def)

text \<open>
  C8 as stated fails when the URL is in both lists: s2 is disabled and also in the live
  list, its probe fails in step 1, and step 2 probes it again, removes it and appends a
  second entry for it.
\<close>

theorem probed_twice_counterexample:
  "\<not> healthyAt apiNet (apiBackend\<lparr>disabledURLs := [''s2'']\<rparr>) (0, ''s2'')
   \<and> disabledURLs (fst (checkBackend apiNet (apiBackend\<lparr>disabledURLs := [''s2'']\<rparr>)
        (apiWorld\<lparr>adapter := [''s2'']\<rparr>))) = [''s2'', ''s2'']
   \<and> step2Events apiNet (apiBackend\<lparr>disabledURLs := [''s2'']\<rparr>) (apiWorld\<lparr>adapter := [''s2'']\<rparr>) =
       [Get ''s2/health'' (5 * Second),
        Warnf ''HealthCheck has failed [s2]: Remove from server list'',
        CallRemoveServer ''s2'']"
  by (simp add: apiWorld_def apiBackend_def apiNet_def healthyAt_def NewBackendHealthCheck_def
      listLB_def step2Events_def afterStep1_def since_def checkBackend_def checkHealth_def
      emit_def Let_def Second_def)

subsection \<open>The request timeout\<close>

text \<open>
  C9, as amended. The request timeout of a backend is 5 seconds: \<^verbatim>\<open>NewBackendHealthCheck\<close>
  sets it whatever the options, which hold the probe path, the interval and the load
  balancer and no timeout; a pass does not change it, and every probe of the backend is a
  GET with that timeout. The configuration input has no request timeout override.
\<close>

theorem request_timeout_fixed:
  "requestTimeout (NewBackendHealthCheck options) = 5 * Second
   \<and> requestTimeout (fst (checkBackend net (NewBackendHealthCheck options) w)) = 5 * Second
   \<and> filter isRequest (trace (snd (checkHealth net u (NewBackendHealthCheck options) w))) =
       filter isRequest (trace w) @ [Get (u @ URL options) (5 * Second)]"
  by (simp add: checkBackend_fields checkHealth_requests) (simp add: NewBackendHealthCheck_def)

text \<open>
  C9 as stated fails: no options give a backend whose request timeout is not 5 seconds.
\<close>

theorem no_timeout_override_counterexample:
  "\<not> (\<exists>options. requestTimeout (NewBackendHealthCheck options) \<noteq> 5 * Second)"
  by (simp add: NewBackendHealthCheck_def)

subsection \<open>Reading the live list\<close>

text \<open>
  C10, as amended. \<^verbatim>\<open>checkBackend\<close> reads the live list once per pass, as its first
  action: the events of a pass are the call of \<^verbatim>\<open>Servers()\<close>, then those of step 1,
  then those of step 2, with no other call of \<^verbatim>\<open>Servers()\<close>, and step 2 probes exactly
  the list that was read. Step 1 upserts exactly the disabled URLs whose probe is healthy,
  and step 2 probes a URL exactly when it is in the list read at the start: so a server
  upserted in step 1 is probed in step 2 of that pass exactly when it was already in that
  list, and not when the upsert brings it back into a live list it had left.
\<close>

theorem servers_read_once:
  "trace (snd (checkBackend net b w)) =
     trace w @ CallServers # step1Events net b w @ step2Events net b w
   \<and> CallServers \<notin> set (step1Events net b w @ step2Events net b w)
   \<and> filter isRequest (step2Events net b w) =
       map (\<lambda>u. Get (u @ URL b) (requestTimeout b)) (Servers (LB b) (adapter w))
   \<and> (CallUpsertServer u 1 \<in> set (step1Events net b w)) =
       (u \<in> snd ` set (filter (healthyAt net b) (enumerate (clock w) (disabledURLs b))))
   \<and> (Get (u @ URL b) (requestTimeout b) \<in> set (step2Events net b w)) =
       (u \<in> set (Servers (LB b) (adapter w)))"
proof -
  have "(CallUpsertServer u 1 \<in> set (step1Events net b w)) =
      (CallUpsertServer u 1 \<in> set (filter isAdapterCall (step1Events net b w)))"
    by simp
  also have "\<dots> = (u \<in> snd ` set (filter (healthyAt net b) (enumerate (clock w) (disabledURLs b))))"
    unfolding step1_calls by (auto simp: image_iff)
  finally show ?thesis
    using checkBackend_trace[of net b w] step1_no_Servers[of net b w] step2_no_Servers[of net b w]
    by (simp add: step2_requests probed_in_step2)
qed

text \<open>
  s1 is disabled and not live: step 1 upserts it and step 2 does not probe it, while it
  probes s3, which was in the list read.
\<close>

theorem servers_read_once_witness:
  "CallUpsertServer ''s1'' 1 \<in> set (step1Events downNet (apiBackend\<lparr>disabledURLs := [''s1'', ''s2'']\<rparr>)
       \<lparr>adapter = [''s3'', ''s4''], clock = 0, trace = []\<rparr>)
   \<and> ''s1'' \<notin> set (Servers listLB [''s3'', ''s4''])
   \<and> Get ''s1/health'' (5 * Second) \<notin> set (step2Events downNet (apiBackend\<lparr>disabledURLs := [''s1'', ''s2'']\<rparr>)
       \<lparr>adapter = [''s3'', ''s4''], clock = 0, trace = []\<rparr>)
   \<and> Get ''s3/health'' (5 * Second) \<in> set (step2Events downNet (apiBackend\<lparr>disabledURLs := [''s1'', ''s2'']\<rparr>)
       \<lparr>adapter = [''s3'', ''s4''], clock = 0, trace = []\<rparr>)"
  using servers_read_once[of downNet "apiBackend\<lparr>disabledURLs := [''s1'', ''s2'']\<rparr>"
      "\<lparr>adapter = [''s3'', ''s4''], clock = 0, trace = []\<rparr>" "''s1''"]
    servers_read_once[of downNet "apiBackend\<lparr>disabledURLs := [''s1'', ''s2'']\<rparr>"
      "\<lparr>adapter = [''s3'', ''s4''], clock = 0, trace = []\<rparr>" "''s3''"]
  by (simp add: apiBackend_fields listLB_Servers downNet_verdicts)

text \<open>
  C10 as stated fails when the server is both disabled and live: s2 answers 200, step 1
  upserts it, and step 2 probes it again, since it was in the list read at the start.
\<close>

theorem upserted_probed_again_counterexample:
  "CallUpsertServer ''s2'' 1 \<in> set (step1Events apiNet (apiBackend\<lparr>disabledURLs := [''s2'']\<rparr>)
       \<lparr>adapter = [''s2''], clock = 2, trace = []\<rparr>)
   \<and> step2Events apiNet (apiBackend\<lparr>disabledURLs := [''s2'']\<rparr>)
       \<lparr>adapter = [''s2''], clock = 2, trace = []\<rparr> =
       [Get ''s2/health'' (5 * Second), BodyClose ''s2/health'']"
  by (simp add: apiBackend_def apiNet_def NewBackendHealthCheck_def
      listLB_def step1Events_def step2Events_def afterStep1_def since_def checkBackend_def
      checkHealth_def emit_def Let_def Second_def)

end
